theory Spec2Isabelle
  imports Main
begin

section \<open>Python values\<close>

text \<open>
  A Python 3 \<open>str\<close> is a sequence of Unicode code points, and \<open>len\<close>, indexing and the
  positions reported by \<open>re\<close> all count code points. A string is therefore a list of code
  points; \<open>str\<close> writes an ASCII literal. The Japanese literals of \<open>tokenizer.py\<close> are
  given by their code points below.
\<close>

type_synonym pystr = "nat list"

abbreviation str :: "string \<Rightarrow> pystr" where
  "str s \<equiv> map of_char s"

text \<open>A token is the tuple \<open>(text, pos)\<close>: \<open>token[0]\<close> is \<open>fst\<close>, \<open>token[1]\<close> is \<open>snd\<close>.\<close>

type_synonym token = "pystr \<times> pystr"

text \<open>\<open>xs[a:b]\<close> for non-negative bounds; Python clamps a slice to the list.\<close>

definition slice :: "'a list \<Rightarrow> nat \<Rightarrow> nat \<Rightarrow> 'a list" where
  "slice xs a b = take (b - a) (drop a xs)"

text \<open>\<open>sep.join(xs)\<close>.\<close>

fun join :: "pystr \<Rightarrow> pystr list \<Rightarrow> pystr" where
  "join sep [] = []"
| "join sep [x] = x"
| "join sep (x # y # ys) = x @ sep @ join sep (y # ys)"

text \<open>
  The exceptions. \<open>AttributeError\<close> and \<open>IndexError\<close> are what the statements of
  \<open>SudachiTokenizer.tokenize\<close> can raise by themselves; \<open>MalformedExternalOutput\<close> is
  the error named by the specification, which no statement of the source raises.
\<close>

datatype error = AttributeError | IndexError | MalformedExternalOutput

section \<open>\<open>re.finditer\<close> on sequences of quantified literals\<close>

text \<open>
  Both patterns of the source, \<open>J*N+\<close> and its Japanese counterpart, are a sequence of
  literals under a greedy \<open>*\<close> or \<open>+\<close>. The matcher is the backtracking one of
  \<open>re\<close>: a greedy repeat first takes as many copies of its literal as there are, then
  gives them back one at a time until the rest of the pattern matches.
  \<open>match_here\<close> returns the length of the match that starts at the head of the string.
\<close>

datatype quant = ZeroOrMore | OneOrMore

type_synonym pattern = "(nat \<times> quant) list"

fun min_count :: "quant \<Rightarrow> nat" where
  "min_count ZeroOrMore = 0"
| "min_count OneOrMore = 1"

fun first_some :: "'a option list \<Rightarrow> 'a option" where
  "first_some [] = None"
| "first_some (None # xs) = first_some xs"
| "first_some (Some x # xs) = Some x"

fun match_here :: "pattern \<Rightarrow> pystr \<Rightarrow> nat option" where
  "match_here [] s = Some 0"
| "match_here ((c, q) # ps) s =
     (let n = length (takeWhile (\<lambda>x. x = c) s)
      in first_some (map (\<lambda>k. map_option (\<lambda>r. k + r) (match_here ps (drop k s)))
                         (rev [min_count q ..< Suc n])))"

text \<open>
  The scan of \<open>finditer\<close>: try each start position from \<open>pos\<close> up to and including the
  end of the string; after a match continue at its end. The step after an empty match
  is written for completeness only: a pattern that ends in \<open>+\<close> never matches the
  empty string.
\<close>

function finditer_from :: "pattern \<Rightarrow> pystr \<Rightarrow> nat \<Rightarrow> (nat \<times> nat) list" where
  "finditer_from pat s pos =
     (if length s < pos then []
      else case match_here pat (drop pos s) of
             None \<Rightarrow> finditer_from pat s (Suc pos)
           | Some len \<Rightarrow>
               (pos, pos + len) # finditer_from pat s (if len = 0 then Suc pos else pos + len))"
  by pat_completeness auto
termination
  by (relation "measure (\<lambda>(pat, s, pos). Suc (length s) - pos)") auto

definition finditer :: "pattern \<Rightarrow> pystr \<Rightarrow> (nat \<times> nat) list" where
  "finditer pat s = finditer_from pat s 0"

section \<open>The statements shared by both \<open>tokenize\<close> methods\<close>

text \<open>
  Lines 47 to 50 and 112 to 115 are the same statements up to the pattern: the matches
  over \<open>"".join(pos_tags)\<close>, the token texts of each matched slice, the filter on the
  length, the join with an underscore. \<open>match_spans\<close> is the iterator.
\<close>

definition match_spans :: "pattern \<Rightarrow> pystr list \<Rightarrow> (nat \<times> nat) list" where
  "match_spans pat pos_tags = finditer pat (join [] pos_tags)"

definition match_phrases :: "pattern \<Rightarrow> token list \<Rightarrow> pystr list \<Rightarrow> pystr list" where
  "match_phrases pat tokens pos_tags =
     (let iterator = match_spans pat pos_tags;
          phrases = filter (\<lambda>x. length x \<le> 3)
                      (map (\<lambda>(start, end). map fst (slice tokens start end)) iterator)
      in map (join (str ''_'')) phrases)"

text \<open>
  The returned token list, \<open>[token[0] for token in tokens if token[1] in pos_filter]\<close>,
  as the loop the comprehension runs; \<open>pos_filter\<close> is a Python list.
\<close>

fun token_filter :: "token list \<Rightarrow> pystr list \<Rightarrow> pystr list" where
  "token_filter [] pos_filter = []"
| "token_filter (token # tokens) pos_filter =
     (if snd token \<in> set pos_filter
      then fst token # token_filter tokens pos_filter
      else token_filter tokens pos_filter)"

section \<open>\<open>StanfordCoreNlpTokenizer\<close>\<close>

definition anonymize_pos_en :: "pystr \<Rightarrow> pystr" where
  "anonymize_pos_en pos =
     (if pos = str ''JJ'' \<or> pos = str ''JJR'' \<or> pos = str ''JJS'' then str ''J''
      else if pos = str ''NN'' \<or> pos = str ''NNS'' \<or> pos = str ''NNP'' \<or> pos = str ''NNPS''
      then str ''N''
      else str ''O'')"

definition pattern_en :: pattern where
  "pattern_en = [(of_char CHR ''J'', ZeroOrMore), (of_char CHR ''N'', OneOrMore)]"

definition pos_filter_en :: "pystr list" where
  "pos_filter_en =
     [str ''JJ'', str ''JJR'', str ''JJS'', str ''NN'', str ''NNS'', str ''NNP'', str ''NNPS'']"

definition pos_tags_en :: "token list \<Rightarrow> pystr list" where
  "pos_tags_en tokens = map (\<lambda>token. anonymize_pos_en (snd token)) tokens"

text \<open>
  \<open>tokenize\<close>, with the external tagger \<open>self.tokenizer.pos_tag\<close> as a parameter; it
  returns the list of \<open>(word, tag)\<close> pairs of the sentence.
\<close>

definition StanfordCoreNlpTokenizer_tokenize ::
  "(pystr \<Rightarrow> token list) \<Rightarrow> pystr \<Rightarrow> pystr list \<Rightarrow> pystr list \<times> pystr list" where
  "StanfordCoreNlpTokenizer_tokenize pos_tag sentence pos_filter =
     (let tokens = pos_tag sentence;
          pos_tags = pos_tags_en tokens;
          phrases = match_phrases pattern_en tokens pos_tags
      in (token_filter tokens pos_filter, phrases))"

section \<open>\<open>SudachiTokenizer\<close>\<close>

text \<open>The code points of the Japanese literals.\<close>

definition keiyoushi :: pystr where
  "keiyoushi = [24418, 23481, 35422]"

definition meishi :: pystr where
  "meishi = [21517, 35422]"

definition kei :: nat where
  "kei = 24418"

definition mei :: nat where
  "mei = 21517"

definition ta :: nat where
  "ta = 20182"

definition anonymize_pos_ja :: "pystr \<Rightarrow> pystr" where
  "anonymize_pos_ja pos =
     (if pos = keiyoushi then [kei]
      else if pos = meishi then [mei]
      else [ta])"

definition pattern_ja :: pattern where
  "pattern_ja = [(kei, ZeroOrMore), (mei, OneOrMore)]"

definition pos_filter_ja :: "pystr list" where
  "pos_filter_ja = [meishi, keiyoushi]"

definition pos_tags_ja :: "token list \<Rightarrow> pystr list" where
  "pos_tags_ja tokens = map (\<lambda>token. anonymize_pos_ja (snd token)) tokens"

text \<open>
  A morpheme of the analyzer: \<open>surface()\<close> and the tuple \<open>part_of_speech()\<close>. The
  object has the attribute \<open>tokenizer\<close>, modelled by its method \<open>tokenize\<close>, and the
  attribute \<open>sudachi_mode\<close>, which is \<open>None\<close> here while the attribute is not set.
\<close>

record morpheme =
  surface :: pystr
  part_of_speech :: "pystr list"

datatype split_mode = SplitMode_A | SplitMode_B | SplitMode_C

record SudachiTokenizer =
  tokenizer :: "pystr \<Rightarrow> split_mode \<Rightarrow> morpheme list"
  sudachi_mode :: "split_mode option"

text \<open>
  \<open>__init__\<close>; the argument \<open>created\<close> is the tokenizer that
  \<open>dictionary.Dictionary().create()\<close> returned. The chain of \<open>if\<close>/\<open>elif\<close> has no
  \<open>else\<close>.
\<close>

definition SudachiTokenizer_init ::
  "(pystr \<Rightarrow> split_mode \<Rightarrow> morpheme list) \<Rightarrow> pystr \<Rightarrow> SudachiTokenizer" where
  "SudachiTokenizer_init created mode =
     (let self = \<lparr>tokenizer = created, sudachi_mode = None\<rparr>
      in if mode = str ''A'' then self\<lparr>sudachi_mode := Some SplitMode_A\<rparr>
         else if mode = str ''B'' then self\<lparr>sudachi_mode := Some SplitMode_B\<rparr>
         else if mode = str ''C'' then self\<lparr>sudachi_mode := Some SplitMode_C\<rparr>
         else self)"

text \<open>
  Lines 108 to 110. The condition of the comprehension is evaluated before its element,
  so \<open>part_of_speech()[0]\<close> is read only for a morpheme that is kept, and raises
  \<open>IndexError\<close> on an empty tuple.
\<close>

definition discarded :: "morpheme \<Rightarrow> bool" where
  "discarded morph \<longleftrightarrow> surface morph \<in> {str ''EOS'', str ''BOS''} \<or> surface morph = []"

fun sudachi_tokens :: "morpheme list \<Rightarrow> error + token list" where
  "sudachi_tokens [] = Inr []"
| "sudachi_tokens (morph # morphs) =
     (if \<not> discarded morph
      then (case part_of_speech morph of
              [] \<Rightarrow> Inl IndexError
            | pos # _ \<Rightarrow>
                (case sudachi_tokens morphs of
                   Inl e \<Rightarrow> Inl e
                 | Inr tokens \<Rightarrow> Inr ((surface morph, pos) # tokens)))
      else sudachi_tokens morphs)"

text \<open>
  \<open>tokenize\<close>. Reading \<open>self.sudachi_mode\<close> for the call of the analyzer raises
  \<open>AttributeError\<close> when the attribute was never set.
\<close>

definition SudachiTokenizer_tokenize ::
  "SudachiTokenizer \<Rightarrow> pystr \<Rightarrow> pystr list \<Rightarrow> error + (pystr list \<times> pystr list)" where
  "SudachiTokenizer_tokenize self sentence pos_filter =
     (case sudachi_mode self of
        None \<Rightarrow> Inl AttributeError
      | Some mode \<Rightarrow>
          (case sudachi_tokens (tokenizer self sentence mode) of
             Inl e \<Rightarrow> Inl e
           | Inr tokens \<Rightarrow>
               (let pos_tags = pos_tags_ja tokens;
                    phrases = match_phrases pattern_ja tokens pos_tags
                in Inr (token_filter tokens pos_filter, phrases))))"

section \<open>The spans of the returned phrases\<close>

text \<open>
  The source filters the token texts of each matched slice by their number; the spans of
  the phrases it returns are the matches whose slice passes that filter.
\<close>

definition phrase_spans :: "pattern \<Rightarrow> token list \<Rightarrow> pystr list \<Rightarrow> (nat \<times> nat) list" where
  "phrase_spans pat tokens pos_tags =
     filter (\<lambda>(start, end). length (map fst (slice tokens start end)) \<le> 3)
       (match_spans pat pos_tags)"

definition phrase_text :: "token list \<Rightarrow> nat \<times> nat \<Rightarrow> pystr" where
  "phrase_text tokens span = join (str ''_'') (map fst (slice tokens (fst span) (snd span)))"

section \<open>The matcher as the specification words it\<close>

text \<open>
  The specification classifies a tag into one of three symbols by a table, and asks for
  the leftmost, longest, non-overlapping matches of zero or more adjectives followed by
  one or more nouns. \<open>in_pattern\<close> is membership of a symbol sequence in that
  language; \<open>longest_at\<close> searches the end positions from the far end of the sentence
  for the longest match that starts at \<open>pos\<close>; \<open>leftmost_longest\<close> takes the longest
  match at the first position that has one and resumes at its end.
\<close>

datatype symbol = Adjective | Noun | Other

definition classify_en :: "pystr \<Rightarrow> symbol" where
  "classify_en tag =
     (if tag \<in> {str ''JJ'', str ''JJR'', str ''JJS''} then Adjective
      else if tag \<in> {str ''NN'', str ''NNS'', str ''NNP'', str ''NNPS''} then Noun
      else Other)"

definition classify_ja :: "pystr \<Rightarrow> symbol" where
  "classify_ja tag =
     (if tag = keiyoushi then Adjective else if tag = meishi then Noun else Other)"

definition symbols_en :: "token list \<Rightarrow> symbol list" where
  "symbols_en tokens = map (\<lambda>token. classify_en (snd token)) tokens"

definition symbols_ja :: "token list \<Rightarrow> symbol list" where
  "symbols_ja tokens = map (\<lambda>token. classify_ja (snd token)) tokens"

definition in_pattern :: "symbol list \<Rightarrow> bool" where
  "in_pattern w \<longleftrightarrow>
     (let nouns = dropWhile (\<lambda>x. x = Adjective) w
      in nouns \<noteq> [] \<and> list_all (\<lambda>x. x = Noun) nouns)"

definition longest_at :: "symbol list \<Rightarrow> nat \<Rightarrow> nat option" where
  "longest_at syms pos =
     find (\<lambda>e. in_pattern (slice syms pos e)) (rev [Suc pos ..< Suc (length syms)])"

function leftmost_longest :: "symbol list \<Rightarrow> nat \<Rightarrow> (nat \<times> nat) list" where
  "leftmost_longest syms pos =
     (if length syms \<le> pos then []
      else case longest_at syms pos of
             None \<Rightarrow> leftmost_longest syms (Suc pos)
           | Some e \<Rightarrow> (pos, e) # leftmost_longest syms e)"
  by pat_completeness auto
termination
proof (relation "measure (\<lambda>(syms, pos). length syms - pos)")
  show "wf (measure (\<lambda>(syms, pos). length syms - pos))"
    by simp
next
  fix syms :: "symbol list" and pos :: nat
  assume "\<not> length syms \<le> pos"
  then show "((syms, Suc pos), (syms, pos)) \<in> measure (\<lambda>(syms, pos). length syms - pos)"
    by simp
next
  fix syms :: "symbol list" and pos e :: nat
  assume pos: "\<not> length syms \<le> pos" and e: "longest_at syms pos = Some e"
  define ends where "ends = rev [Suc pos ..< Suc (length syms)]"
  from e obtain i where "i < length ends" "e = ends ! i"
    unfolding longest_at_def ends_def [symmetric] find_Some_iff by blast
  then have "e \<in> set ends"
    by simp
  then have "pos < e"
    by (auto simp: ends_def)
  with pos show "((syms, e), (syms, pos)) \<in> measure (\<lambda>(syms, pos). length syms - pos)"
    by simp
qed

text \<open>
  The specification also asks that the lengths of the token sequence and of the symbol
  sequence be compared before the pattern is matched, with the error
  \<open>MalformedExternalOutput\<close> on a mismatch. The source has no such comparison;
  \<open>checked_match_phrases\<close> is the matching step as the specification words it.
\<close>

definition checked_match_phrases :: "pattern \<Rightarrow> token list \<Rightarrow> pystr list \<Rightarrow> error + pystr list" where
  "checked_match_phrases pat tokens pos_tags =
     (if length tokens = length pos_tags then Inr (match_phrases pat tokens pos_tags)
      else Inl MalformedExternalOutput)"

text \<open>The character by which each class writes a symbol into the string it matches on.\<close>

fun symbol_char_en :: "symbol \<Rightarrow> nat" where
  "symbol_char_en Adjective = of_char CHR ''J''"
| "symbol_char_en Noun = of_char CHR ''N''"
| "symbol_char_en Other = of_char CHR ''O''"

fun symbol_char_ja :: "symbol \<Rightarrow> nat" where
  "symbol_char_ja Adjective = kei"
| "symbol_char_ja Noun = mei"
| "symbol_char_ja Other = ta"

section \<open>Names for the statements below\<close>

text \<open>
  The phrases and the phrase spans of either class on a token sequence, the length limit
  on a span, and disjointness of two spans as sets of token positions.
\<close>

abbreviation phrases_en :: "token list \<Rightarrow> pystr list" where
  "phrases_en tokens \<equiv> match_phrases pattern_en tokens (pos_tags_en tokens)"

abbreviation phrases_ja :: "token list \<Rightarrow> pystr list" where
  "phrases_ja tokens \<equiv> match_phrases pattern_ja tokens (pos_tags_ja tokens)"

abbreviation spans_en :: "token list \<Rightarrow> (nat \<times> nat) list" where
  "spans_en tokens \<equiv> phrase_spans pattern_en tokens (pos_tags_en tokens)"

abbreviation spans_ja :: "token list \<Rightarrow> (nat \<times> nat) list" where
  "spans_ja tokens \<equiv> phrase_spans pattern_ja tokens (pos_tags_ja tokens)"

definition short :: "nat \<times> nat \<Rightarrow> bool" where
  "short span \<longleftrightarrow> snd span - fst span \<le> 3"

definition disjoint_spans :: "nat \<times> nat \<Rightarrow> nat \<times> nat \<Rightarrow> bool" where
  "disjoint_spans a b \<longleftrightarrow> {fst a ..< snd a} \<inter> {fst b ..< snd b} = {}"

text \<open>Token sequences and analyzer outputs on which the statements are evaluated.\<close>

definition quick_brown_fox :: "token list" where
  "quick_brown_fox =
     [(str ''quick'', str ''JJ''), (str ''brown'', str ''JJ''), (str ''fox'', str ''NN''),
      (str ''jumps'', str ''VBZ'')]"

definition long_run :: "token list" where
  "long_run =
     [(str ''big'', str ''JJ''), (str ''old'', str ''JJ''), (str ''red'', str ''JJ''),
      (str ''wooden'', str ''JJ''), (str ''house'', str ''NN'')]"

definition long_then_short :: "token list" where
  "long_then_short = long_run @ [(str ''burns'', str ''VBZ''), (str ''red'', str ''JJ''),
      (str ''house'', str ''NN'')]"

definition no_noun :: "token list" where
  "no_noun = [(str ''runs'', str ''VBZ''), (str ''quickly'', str ''RB'')]"

definition tea_and_tea :: "token list" where
  "tea_and_tea = [(str ''tea'', str ''NN''), (str ''and'', str ''CC''), (str ''tea'', str ''NN'')]"

definition utsukushii :: pystr where
  "utsukushii = [32654, 12375, 12356]"

definition hana :: pystr where
  "hana = [33457]"

definition utsukushii_hana :: "token list" where
  "utsukushii_hana = [(utsukushii, keiyoushi), (hana, meishi)]"

definition hana_to_hana :: "token list" where
  "hana_to_hana = [(hana, meishi), ([12392], [21161, 35422]), (hana, meishi)]"

definition raw_utsukushii_hana :: "morpheme list" where
  "raw_utsukushii_hana =
     [\<lparr>surface = str ''BOS'', part_of_speech = []\<rparr>,
      \<lparr>surface = utsukushii, part_of_speech = [keiyoushi, str ''*'']\<rparr>,
      \<lparr>surface = [], part_of_speech = [str ''*'']\<rparr>,
      \<lparr>surface = hana, part_of_speech = [meishi, str ''*'']\<rparr>,
      \<lparr>surface = str ''EOS'', part_of_speech = []\<rparr>]"

text \<open>An object whose analyzer returns the given morphemes for every sentence.\<close>

definition sudachi_stub :: "morpheme list \<Rightarrow> SudachiTokenizer" where
  "sudachi_stub morphs = \<lparr>tokenizer = (\<lambda>sentence mode. morphs), sudachi_mode = Some SplitMode_C\<rparr>"

definition fox_and_dog :: "token list" where
  "fox_and_dog = quick_brown_fox @ [(str ''lazy'', str ''JJ''), (str ''dog'', str ''NN'')]"

definition raw_hana_to_hana :: "morpheme list" where
  "raw_hana_to_hana =
     [\<lparr>surface = hana, part_of_speech = [meishi, str ''*'']\<rparr>,
      \<lparr>surface = [12392], part_of_speech = [[21161, 35422], str ''*'']\<rparr>,
      \<lparr>surface = hana, part_of_speech = [meishi, str ''*'']\<rparr>]"

section \<open>The matcher of the source in closed form\<close>

lemma first_some_map_Some:
  "first_some (map (\<lambda>k. Some (f k)) ks) = (case ks of [] \<Rightarrow> None | k # _ \<Rightarrow> Some (f k))"
  by (cases ks) auto

lemma match_plus:
  "match_here [(n, OneOrMore)] s =
     (let m = length (takeWhile (\<lambda>x. x = n) s) in if m = 0 then None else Some m)"
proof (cases "takeWhile (\<lambda>x. x = n) s = []")
  case True
  then show ?thesis by simp
next
  case False
  define m where "m = length (takeWhile (\<lambda>x. x = n) s)"
  from False have "0 < m" by (simp add: m_def)
  then have "rev [Suc 0 ..< Suc m] = m # rev [Suc 0 ..< m]"
    by simp
  with \<open>0 < m\<close> show ?thesis
    by (simp add: Let_def m_def [symmetric])
qed

lemma first_some_all_None: "(\<And>k. k \<in> set ks \<Longrightarrow> f k = None) \<Longrightarrow> first_some (map f ks) = None"
  by (induction ks) auto

lemma takeWhile_drop_other:
  assumes "k < length (takeWhile (\<lambda>x. x = a) s)" "a \<noteq> n"
  shows "takeWhile (\<lambda>x. x = n) (drop k s) = []"
proof -
  have "length (takeWhile (\<lambda>x. x = a) s) \<le> length s"
    by (rule length_takeWhile_le)
  with assms(1) have k: "k < length s"
    by simp
  from assms(1) have "takeWhile (\<lambda>x. x = a) s ! k \<in> set (takeWhile (\<lambda>x. x = a) s)"
    by (rule nth_mem)
  then have "takeWhile (\<lambda>x. x = a) s ! k = a"
    by (rule set_takeWhileD [THEN conjunct2])
  with assms(1) have "s ! k = a"
    by (simp add: takeWhile_nth)
  moreover from k have "drop k s = s ! k # drop (Suc k) s"
    by (simp add: Cons_nth_drop_Suc)
  ultimately show ?thesis
    using assms(2) by simp
qed

lemma match_star_plus:
  assumes "a \<noteq> n"
  shows "match_here [(a, ZeroOrMore), (n, OneOrMore)] s =
     (let j = length (takeWhile (\<lambda>x. x = a) s);
          m = length (takeWhile (\<lambda>x. x = n) (drop j s))
      in if m = 0 then None else Some (j + m))"
proof -
  define j where "j = length (takeWhile (\<lambda>x. x = a) s)"
  define m where "m = length (takeWhile (\<lambda>x. x = n) (drop j s))"
  define f where "f = (\<lambda>k. map_option (\<lambda>r. k + r) (match_here [(n, OneOrMore)] (drop k s)))"
  have unfold: "match_here [(a, ZeroOrMore), (n, OneOrMore)] s = first_some (map f (rev [0 ..< Suc j]))"
    unfolding f_def j_def by (simp only: match_here.simps min_count.simps Let_def)
  have split: "rev [0 ..< Suc j] = j # rev [0 ..< j]"
    by simp
  have fj: "f j = (if m = 0 then None else Some (j + m))"
    unfolding f_def match_plus Let_def m_def by simp
  have below: "f k = None" if "k \<in> set (rev [0 ..< j])" for k
  proof -
    from that have "k < j" by simp
    then have "takeWhile (\<lambda>x. x = n) (drop k s) = []"
      unfolding j_def using assms by (rule takeWhile_drop_other)
    then show ?thesis unfolding f_def match_plus Let_def by simp
  qed
  have "first_some (map f (rev [0 ..< j])) = None"
    using below by (rule first_some_all_None)
  then have "first_some (map f (rev [0 ..< Suc j])) = (if m = 0 then None else Some (j + m))"
    unfolding split by (simp add: fj)
  then show ?thesis
    unfolding unfold by (simp add: j_def m_def Let_def)
qed

section \<open>The longest match of the specification in closed form\<close>

lemma list_all_take_takeWhile:
  "m \<le> length d \<Longrightarrow> list_all P (take m d) \<longleftrightarrow> m \<le> length (takeWhile P d)"
proof (induction d arbitrary: m)
  case Nil
  then show ?case by simp
next
  case (Cons x d)
  then show ?case by (cases m) auto
qed

lemma in_pattern_take:
  assumes "L \<le> length w"
  defines "j \<equiv> length (takeWhile (\<lambda>x. x = Adjective) w)"
  defines "n \<equiv> length (takeWhile (\<lambda>x. x = Noun) (drop j w))"
  shows "in_pattern (take L w) \<longleftrightarrow> j < L \<and> L \<le> j + n"
proof (cases "L \<le> j")
  case True
  have w: "w = takeWhile (\<lambda>x. x = Adjective) w @ dropWhile (\<lambda>x. x = Adjective) w"
    by simp
  from True have "take L w = take L (takeWhile (\<lambda>x. x = Adjective) w)"
    unfolding j_def by (subst w) (simp del: takeWhile_dropWhile_id)
  then have "\<forall>x \<in> set (take L w). x = Adjective"
    by (auto dest!: in_set_takeD set_takeWhileD)
  then have "dropWhile (\<lambda>x. x = Adjective) (take L w) = []"
    by simp
  with True show ?thesis
    by (simp add: in_pattern_def)
next
  case False
  define d where "d = dropWhile (\<lambda>x. x = Adjective) w"
  have dj: "drop j w = d"
    unfolding j_def d_def by (rule dropWhile_eq_drop [symmetric])
  have len: "length w = j + length d"
    unfolding j_def d_def by (metis length_append takeWhile_dropWhile_id)
  from False assms(1) len have dne: "d \<noteq> []"
    by auto
  then have hd: "hd d \<noteq> Adjective"
    unfolding d_def by (rule hd_dropWhile)
  have tk: "take L w = takeWhile (\<lambda>x. x = Adjective) w @ take (L - j) d"
  proof -
    have "take L w = take L (takeWhile (\<lambda>x. x = Adjective) w @ d)"
      by (simp add: d_def)
    also have "\<dots> = takeWhile (\<lambda>x. x = Adjective) w @ take (L - j) d"
      using False by (simp add: j_def)
    finally show ?thesis .
  qed
  have "dropWhile (\<lambda>x. x = Adjective) (take L w) = dropWhile (\<lambda>x. x = Adjective) (take (L - j) d)"
    unfolding tk by (rule dropWhile_append2) (auto dest: set_takeWhileD)
  also have "\<dots> = take (L - j) d"
  proof -
    from False obtain r where r: "L - j = Suc r"
      by (cases "L - j") auto
    from dne obtain x xs where d: "d = x # xs"
      by (cases d) auto
    with hd show ?thesis by (simp add: r)
  qed
  finally have dw: "dropWhile (\<lambda>x. x = Adjective) (take L w) = take (L - j) d" .
  from False dne have ne: "take (L - j) d \<noteq> []"
    by auto
  from assms(1) len have "L - j \<le> length d"
    by simp
  then have "list_all (\<lambda>x. x = Noun) (take (L - j) d) \<longleftrightarrow> L - j \<le> n"
    unfolding n_def dj by (rule list_all_take_takeWhile)
  with False ne show ?thesis
    by (auto simp: in_pattern_def dw)
qed

lemma find_rev_upt_Some:
  assumes "a \<le> e" "e < b" "P e" "\<And>k. e < k \<Longrightarrow> k < b \<Longrightarrow> \<not> P k"
  shows "find P (rev [a ..< b]) = Some e"
  using assms
proof (induction b)
  case 0
  then show ?case by simp
next
  case (Suc b)
  show ?case
  proof (cases "e = b")
    case True
    with Suc.prems show ?thesis by simp
  next
    case False
    with Suc.prems have "e < b" by simp
    moreover from Suc.prems have "\<not> P b" using \<open>e < b\<close> by simp
    moreover have "find P (rev [a ..< b]) = Some e"
      using Suc.prems \<open>e < b\<close> by (intro Suc.IH) auto
    ultimately show ?thesis using Suc.prems by simp
  qed
qed

lemma longest_at_closed:
  assumes "pos < length syms"
  defines "j \<equiv> length (takeWhile (\<lambda>x. x = Adjective) (drop pos syms))"
  defines "n \<equiv> length (takeWhile (\<lambda>x. x = Noun) (drop (pos + j) syms))"
  shows "longest_at syms pos = (if n = 0 then None else Some (pos + j + n))"
proof -
  define w where "w = drop pos syms"
  have n': "n = length (takeWhile (\<lambda>x. x = Noun) (drop j w))"
    by (simp add: n_def w_def add.commute)
  have P: "in_pattern (slice syms pos e) \<longleftrightarrow> pos + j < e \<and> e \<le> pos + j + n"
    if "pos < e" "e \<le> length syms" for e
  proof -
    from that have "e - pos \<le> length w" by (simp add: w_def)
    then have "in_pattern (take (e - pos) w) \<longleftrightarrow> 
       length (takeWhile (\<lambda>x. x = Adjective) w) < e - pos \<and> 
       e - pos \<le> length (takeWhile (\<lambda>x. x = Adjective) w) + 
         length (takeWhile (\<lambda>x. x = Noun) (drop (length (takeWhile (\<lambda>x. x = Adjective) w)) w))"
      by (rule in_pattern_take)
    with that show ?thesis
      unfolding slice_def n' j_def w_def [symmetric] by auto
  qed
  have bound: "pos + j + n \<le> length syms"
  proof -
    have "j \<le> length w"
      unfolding j_def w_def [symmetric] by (rule length_takeWhile_le)
    moreover have "n \<le> length (drop j w)"
      unfolding n' by (rule length_takeWhile_le)
    ultimately show ?thesis using assms(1) by (simp add: w_def)
  qed
  show ?thesis
  proof (cases "n = 0")
    case True
    have "\<not> in_pattern (slice syms pos e)" if "e \<in> set (rev [Suc pos ..< Suc (length syms)])" for e
      using that P [of e] True by auto
    then have "find (\<lambda>e. in_pattern (slice syms pos e)) (rev [Suc pos ..< Suc (length syms)]) = None"
      unfolding find_None_iff by blast
    then have "longest_at syms pos = None"
      by (simp only: longest_at_def)
    with True show ?thesis
      by simp
  next
    case False
    have "find (\<lambda>e. in_pattern (slice syms pos e)) (rev [Suc pos ..< Suc (length syms)]) = Some (pos + j + n)"
    proof (rule find_rev_upt_Some)
      show "Suc pos \<le> pos + j + n" using False by simp
      show "pos + j + n < Suc (length syms)" using bound by simp
      show "in_pattern (slice syms pos (pos + j + n))"
        using False bound by (subst P) auto
      show "\<not> in_pattern (slice syms pos k)" if "pos + j + n < k" "k < Suc (length syms)" for k
        using that by (subst P) auto
    qed
    with False show ?thesis by (simp add: longest_at_def)
  qed
qed

section \<open>The scan of the source refines the leftmost-longest scan\<close>

declare finditer_from.simps [simp del] leftmost_longest.simps [simp del] match_here.simps [simp del]

lemma finditer_from_end: "length s < pos \<Longrightarrow> finditer_from pat s pos = []"
  by (subst finditer_from.simps) simp

lemma finditer_from_None:
  "pos \<le> length s \<Longrightarrow> match_here pat (drop pos s) = None \<Longrightarrow>
   finditer_from pat s pos = finditer_from pat s (Suc pos)"
  by (subst finditer_from.simps) simp

lemma finditer_from_Some:
  "pos \<le> length s \<Longrightarrow> match_here pat (drop pos s) = Some len \<Longrightarrow> 0 < len \<Longrightarrow>
   finditer_from pat s pos = (pos, pos + len) # finditer_from pat s (pos + len)"
  by (subst finditer_from.simps) simp

lemma leftmost_longest_end: "length syms \<le> pos \<Longrightarrow> leftmost_longest syms pos = []"
  by (subst leftmost_longest.simps) simp

lemma leftmost_longest_None:
  "pos < length syms \<Longrightarrow> longest_at syms pos = None \<Longrightarrow>
   leftmost_longest syms pos = leftmost_longest syms (Suc pos)"
  by (subst leftmost_longest.simps) simp

lemma leftmost_longest_Some:
  "pos < length syms \<Longrightarrow> longest_at syms pos = Some e \<Longrightarrow>
   leftmost_longest syms pos = (pos, e) # leftmost_longest syms e"
  by (subst leftmost_longest.simps) simp

lemma takeWhile_map_eq:
  assumes "\<And>x. f x = c \<longleftrightarrow> x = y"
  shows "length (takeWhile (\<lambda>x. x = c) (map f xs)) = length (takeWhile (\<lambda>x. x = y) xs)"
  using assms by (induction xs) auto

lemma finditer_from_refines:
  fixes f :: "symbol \<Rightarrow> nat"
  assumes a: "\<And>x. f x = a \<longleftrightarrow> x = Adjective"
      and n: "\<And>x. f x = n \<longleftrightarrow> x = Noun"
  shows "finditer_from [(a, ZeroOrMore), (n, OneOrMore)] (map f syms) pos = leftmost_longest syms pos"
proof (induction syms pos rule: leftmost_longest.induct)
  case (1 syms pos)
  let ?pat = "[(a, ZeroOrMore), (n, OneOrMore)]"
  have an: "a \<noteq> n"
    using a [of Noun] n [of Noun] by auto
  define j where "j = length (takeWhile (\<lambda>x. x = Adjective) (drop pos syms))"
  define m where "m = length (takeWhile (\<lambda>x. x = Noun) (drop (pos + j) syms))"
  have code: "match_here ?pat (drop pos (map f syms)) = (if m = 0 then None else Some (j + m))"
    unfolding match_star_plus [OF an] Let_def j_def m_def drop_map drop_drop
    by (simp add: takeWhile_map_eq [OF a] takeWhile_map_eq [OF n] add.commute)
  show ?case
  proof (cases "length syms \<le> pos")
    case True
    show ?thesis
    proof (cases "length syms < pos")
      case True
      then show ?thesis
        by (simp add: finditer_from_end leftmost_longest_end)
    next
      case False
      with True have eq: "pos = length syms" by simp
      have "m = 0" by (simp add: m_def eq)
      with code have c: "match_here ?pat (drop pos (map f syms)) = None"
        by simp
      have "finditer_from ?pat (map f syms) pos = finditer_from ?pat (map f syms) (Suc pos)"
        using c by (intro finditer_from_None) (simp_all add: eq)
      also have "\<dots> = []"
        by (rule finditer_from_end) (simp add: eq)
      finally show ?thesis
        using True by (simp add: leftmost_longest_end)
    qed
  next
    case False
    then have lt: "pos < length syms" by simp
    then have le: "pos \<le> length (map f syms)" by simp
    have spec: "longest_at syms pos = (if m = 0 then None else Some (pos + j + m))"
      unfolding m_def j_def using lt by (rule longest_at_closed)
    show ?thesis
    proof (cases "m = 0")
      case True
      with spec have s: "longest_at syms pos = None" by simp
      from code True have c: "match_here ?pat (drop pos (map f syms)) = None"
        by simp
      have "finditer_from ?pat (map f syms) pos = finditer_from ?pat (map f syms) (Suc pos)"
        using le c by (rule finditer_from_None)
      also have "\<dots> = leftmost_longest syms (Suc pos)"
        using False s by (rule "1.IH"(1))
      also have "\<dots> = leftmost_longest syms pos"
        using lt s by (rule leftmost_longest_None [symmetric])
      finally show ?thesis .
    next
      case nz: False
      with spec have s: "longest_at syms pos = Some (pos + j + m)" by simp
      from code nz have c: "match_here ?pat (drop pos (map f syms)) = Some (j + m)"
        by simp
      from nz have pos: "0 < j + m" by simp
      have "finditer_from ?pat (map f syms) pos =
            (pos, pos + (j + m)) # finditer_from ?pat (map f syms) (pos + (j + m))"
        using le c pos by (rule finditer_from_Some)
      also have "finditer_from ?pat (map f syms) (pos + (j + m)) = leftmost_longest syms (pos + j + m)"
        unfolding add.assoc [symmetric] using False s by (rule "1.IH"(2))
      also have "(pos, pos + (j + m)) # leftmost_longest syms (pos + j + m) = leftmost_longest syms pos"
        unfolding add.assoc [symmetric] using lt s by (rule leftmost_longest_Some [symmetric])
      finally show ?thesis .
    qed
  qed
qed

section \<open>Facts on phrase spans\<close>

lemma join_empty: "join [] xs = concat xs"
  by (induction "[] :: pystr" xs rule: join.induct) auto

lemma anonymize_pos_en_char: "anonymize_pos_en pos = [symbol_char_en (classify_en pos)]"
  by (simp add: anonymize_pos_en_def classify_en_def)

lemma anonymize_pos_ja_char: "anonymize_pos_ja pos = [symbol_char_ja (classify_ja pos)]"
  by (simp add: anonymize_pos_ja_def classify_ja_def)

lemma joined_en: "join [] (pos_tags_en tokens) = map symbol_char_en (symbols_en tokens)"
  unfolding join_empty pos_tags_en_def symbols_en_def
  by (induction tokens) (simp_all add: anonymize_pos_en_char)

lemma joined_ja: "join [] (pos_tags_ja tokens) = map symbol_char_ja (symbols_ja tokens)"
  unfolding join_empty pos_tags_ja_def symbols_ja_def
  by (induction tokens) (simp_all add: anonymize_pos_ja_char)

lemma symbol_char_en_inj:
  "symbol_char_en x = of_char CHR ''J'' \<longleftrightarrow> x = Adjective"
  "symbol_char_en x = of_char CHR ''N'' \<longleftrightarrow> x = Noun"
  by (cases x; simp)+

lemma symbol_char_ja_inj:
  "symbol_char_ja x = kei \<longleftrightarrow> x = Adjective"
  "symbol_char_ja x = mei \<longleftrightarrow> x = Noun"
  by (cases x; simp add: kei_def mei_def ta_def)+

lemma match_spans_en:
  "match_spans pattern_en (pos_tags_en tokens) = leftmost_longest (symbols_en tokens) 0"
  unfolding match_spans_def finditer_def joined_en pattern_en_def
  by (rule finditer_from_refines) (rule symbol_char_en_inj)+

lemma match_spans_ja:
  "match_spans pattern_ja (pos_tags_ja tokens) = leftmost_longest (symbols_ja tokens) 0"
  unfolding match_spans_def finditer_def joined_ja pattern_ja_def
  by (rule finditer_from_refines) (rule symbol_char_ja_inj)+

lemma find_Some_mem: "find P xs = Some x \<Longrightarrow> x \<in> set xs \<and> P x"
  by (induction xs) (auto split: if_splits)

lemma longest_at_bounds: "longest_at syms pos = Some e \<Longrightarrow> pos < e \<and> e \<le> length syms"
  unfolding longest_at_def by (drule find_Some_mem) auto

lemma longest_at_in_pattern: "longest_at syms pos = Some e \<Longrightarrow> in_pattern (slice syms pos e)"
  unfolding longest_at_def by (drule find_Some_mem) simp

lemma leftmost_longest_bounds:
  "(s, e) \<in> set (leftmost_longest syms pos) \<Longrightarrow> pos \<le> s \<and> s < e \<and> e \<le> length syms"
proof (induction syms pos rule: leftmost_longest.induct)
  case (1 syms pos)
  show ?case
  proof (cases "length syms \<le> pos")
    case True
    with "1.prems" show ?thesis by (simp add: leftmost_longest_end)
  next
    case False
    then have lt: "pos < length syms" by simp
    show ?thesis
    proof (cases "longest_at syms pos")
      case None
      with lt "1.prems" have "(s, e) \<in> set (leftmost_longest syms (Suc pos))"
        by (simp add: leftmost_longest_None)
      with "1.IH"(1) [OF False None] show ?thesis by simp
    next
      case (Some e')
      note b = longest_at_bounds [OF Some]
      from lt Some "1.prems" have "(s, e) = (pos, e') \<or> (s, e) \<in> set (leftmost_longest syms e')"
        by (simp add: leftmost_longest_Some)
      then show ?thesis
      proof
        assume "(s, e) = (pos, e')"
        with b show ?thesis by simp
      next
        assume "(s, e) \<in> set (leftmost_longest syms e')"
        with "1.IH"(2) [OF False Some] b show ?thesis by simp
      qed
    qed
  qed
qed

lemma leftmost_longest_chain:
  "sorted_wrt (\<lambda>a b. snd a \<le> fst b) (leftmost_longest syms pos)"
proof (induction syms pos rule: leftmost_longest.induct)
  case (1 syms pos)
  show ?case
  proof (cases "length syms \<le> pos")
    case True
    then show ?thesis by (simp add: leftmost_longest_end)
  next
    case False
    then have lt: "pos < length syms" by simp
    show ?thesis
    proof (cases "longest_at syms pos")
      case None
      with lt "1.IH"(1) [OF False None] show ?thesis
        by (simp add: leftmost_longest_None)
    next
      case (Some e')
      have "e' \<le> fst b" if "b \<in> set (leftmost_longest syms e')" for b
        using leftmost_longest_bounds [of "fst b" "snd b" syms e'] that by simp
      with lt Some "1.IH"(2) [OF False Some] show ?thesis
        by (simp add: leftmost_longest_Some)
    qed
  qed
qed

lemma leftmost_longest_in_pattern:
  "(s, e) \<in> set (leftmost_longest syms pos) \<Longrightarrow> in_pattern (slice syms s e)"
proof (induction syms pos rule: leftmost_longest.induct)
  case (1 syms pos)
  show ?case
  proof (cases "length syms \<le> pos")
    case True
    with "1.prems" show ?thesis by (simp add: leftmost_longest_end)
  next
    case False
    then have lt: "pos < length syms" by simp
    show ?thesis
    proof (cases "longest_at syms pos")
      case None
      with lt "1.prems" have "(s, e) \<in> set (leftmost_longest syms (Suc pos))"
        by (simp add: leftmost_longest_None)
      with "1.IH"(1) [OF False None] show ?thesis by simp
    next
      case (Some e')
      from lt Some "1.prems" have "(s, e) = (pos, e') \<or> (s, e) \<in> set (leftmost_longest syms e')"
        by (simp add: leftmost_longest_Some)
      then show ?thesis
      proof
        assume "(s, e) = (pos, e')"
        with longest_at_in_pattern [OF Some] show ?thesis by simp
      next
        assume "(s, e) \<in> set (leftmost_longest syms e')"
        with "1.IH"(2) [OF False Some] show ?thesis by simp
      qed
    qed
  qed
qed

lemma in_pattern_last_Noun:
  assumes "in_pattern w"
  shows "w \<noteq> [] \<and> last w = Noun"
proof -
  define d where "d = dropWhile (\<lambda>x. x = Adjective) w"
  from assms have d: "d \<noteq> []" "list_all (\<lambda>x. x = Noun) d"
    by (simp_all add: in_pattern_def d_def Let_def)
  have w: "w = takeWhile (\<lambda>x. x = Adjective) w @ d"
    by (simp add: d_def)
  from d(1) have "last (takeWhile (\<lambda>x. x = Adjective) w @ d) = last d"
    by simp
  with w have l: "last w = last d"
    by simp
  from d(1) have "last d \<in> set d"
    by simp
  with d(2) have "last d = Noun"
    by (simp add: list_all_iff)
  moreover from w d(1) have "w \<noteq> []"
    by auto
  ultimately show ?thesis
    using l by simp
qed

lemma in_pattern_iff:
  "in_pattern w \<longleftrightarrow> (\<exists>js ns. w = js @ ns \<and> ns \<noteq> [] \<and> set js \<subseteq> {Adjective} \<and> set ns \<subseteq> {Noun})"
proof
  assume w: "in_pattern w"
  define d where "d = dropWhile (\<lambda>x. x = Adjective) w"
  from w have d: "d \<noteq> []" "list_all (\<lambda>x. x = Noun) d"
    by (simp_all add: in_pattern_def d_def Let_def)
  have "w = takeWhile (\<lambda>x. x = Adjective) w @ d"
    by (simp add: d_def)
  moreover have "set (takeWhile (\<lambda>x. x = Adjective) w) \<subseteq> {Adjective}"
    by (auto dest: set_takeWhileD)
  moreover from d(2) have "set d \<subseteq> {Noun}"
    by (auto simp: list_all_iff)
  ultimately show "\<exists>js ns. w = js @ ns \<and> ns \<noteq> [] \<and> set js \<subseteq> {Adjective} \<and> set ns \<subseteq> {Noun}"
    using d(1) by blast
next
  assume "\<exists>js ns. w = js @ ns \<and> ns \<noteq> [] \<and> set js \<subseteq> {Adjective} \<and> set ns \<subseteq> {Noun}"
  then obtain js ns where w: "w = js @ ns" and ns: "ns \<noteq> []"
    and js: "set js \<subseteq> {Adjective}" and nn: "set ns \<subseteq> {Noun}"
    by blast
  from ns obtain x xs where c: "ns = x # xs" by (cases ns) auto
  with nn have x: "x = Noun" by simp
  have "dropWhile (\<lambda>x. x = Adjective) w = dropWhile (\<lambda>x. x = Adjective) ns"
    unfolding w using js by (intro dropWhile_append2) auto
  also have "\<dots> = ns"
    by (simp add: c x)
  finally have "dropWhile (\<lambda>x. x = Adjective) w = ns" .
  with ns nn show "in_pattern w"
    by (auto simp: in_pattern_def list_all_iff)
qed

lemma match_phrases_spans:
  "match_phrases pat tokens pos_tags = map (phrase_text tokens) (phrase_spans pat tokens pos_tags)"
proof -
  have "map (join (str ''_'')) (filter (\<lambda>x. length x \<le> 3)
          (map (\<lambda>(start, end). map fst (slice tokens start end)) spans)) =
        map (phrase_text tokens)
          (filter (\<lambda>(start, end). length (map fst (slice tokens start end)) \<le> 3) spans)" for spans
    by (induction spans) (auto simp: phrase_text_def)
  then show ?thesis
    by (simp only: match_phrases_def phrase_spans_def Let_def)
qed

lemma slice_length: "e \<le> length xs \<Longrightarrow> length (slice xs s e) = e - s"
  by (simp add: slice_def)

lemma slice_nth: "e \<le> length xs \<Longrightarrow> slice xs s e = map (\<lambda>i. xs ! i) [s ..< e]"
proof -
  assume e: "e \<le> length xs"
  show ?thesis
  proof (rule nth_equalityI)
    show "length (slice xs s e) = length (map ((!) xs) [s ..< e])"
      using e by (simp add: slice_length)
  next
    fix i assume "i < length (slice xs s e)"
    with e have i: "i < e - s" by (simp add: slice_length)
    with e show "slice xs s e ! i = map ((!) xs) [s ..< e] ! i"
      by (simp add: slice_def)
  qed
qed

lemma phrase_spans_leftmost_longest:
  assumes m: "match_spans pat pos_tags = leftmost_longest syms 0"
      and l: "length syms = length tokens"
  shows "phrase_spans pat tokens pos_tags = filter short (leftmost_longest syms 0)"
  unfolding phrase_spans_def m
proof (rule filter_cong [OF refl])
  fix span assume "span \<in> set (leftmost_longest syms 0)"
  then have "(fst span, snd span) \<in> set (leftmost_longest syms 0)" by simp
  then have "snd span \<le> length tokens"
    using leftmost_longest_bounds [of "fst span" "snd span" syms 0] l by simp
  then show "(case span of (start, end) \<Rightarrow> length (map fst (slice tokens start end)) \<le> 3) = short span"
    by (simp add: case_prod_beta short_def slice_length)
qed

lemma spans_en_spec: "spans_en tokens = filter short (leftmost_longest (symbols_en tokens) 0)"
  by (rule phrase_spans_leftmost_longest [OF match_spans_en]) (simp add: symbols_en_def)

lemma spans_ja_spec: "spans_ja tokens = filter short (leftmost_longest (symbols_ja tokens) 0)"
  by (rule phrase_spans_leftmost_longest [OF match_spans_ja]) (simp add: symbols_ja_def)

lemma leftmost_longest_has_Noun:
  assumes "span \<in> set (leftmost_longest syms pos)"
  shows "Noun \<in> set (slice syms (fst span) (snd span))"
proof -
  from assms have "(fst span, snd span) \<in> set (leftmost_longest syms pos)" by simp
  then have "in_pattern (slice syms (fst span) (snd span))"
    by (rule leftmost_longest_in_pattern)
  then have "slice syms (fst span) (snd span) \<noteq> [] \<and> last (slice syms (fst span) (snd span)) = Noun"
    by (rule in_pattern_last_Noun)
  then show ?thesis
    using last_in_set [of "slice syms (fst span) (snd span)"] by simp
qed

lemma leftmost_longest_no_Noun:
  assumes "Noun \<notin> set syms"
  shows "leftmost_longest syms pos = []"
proof (rule ccontr)
  assume "leftmost_longest syms pos \<noteq> []"
  then obtain span where s: "span \<in> set (leftmost_longest syms pos)"
    by (cases "leftmost_longest syms pos") auto
  then have "Noun \<in> set (slice syms (fst span) (snd span))"
    by (rule leftmost_longest_has_Noun)
  then have "Noun \<in> set syms"
    unfolding slice_def by (auto dest: in_set_takeD in_set_dropD)
  with assms show False by simp
qed

lemma leftmost_longest_Nil: "leftmost_longest [] pos = []"
  by (simp add: leftmost_longest_end)


lemma disjoint_spans_le: "snd a \<le> fst b \<Longrightarrow> disjoint_spans a b"
  by (auto simp: disjoint_spans_def)

lemma disjoint_spans_sym: "disjoint_spans a b \<Longrightarrow> disjoint_spans b a"
  by (auto simp: disjoint_spans_def)

lemma sorted_wrt_mem_cases:
  "sorted_wrt P xs \<Longrightarrow> a \<in> set xs \<Longrightarrow> b \<in> set xs \<Longrightarrow> a = b \<or> P a b \<or> P b a"
  by (induction xs) auto

lemma spans_en_matches: "spans_en tokens = filter short (match_spans pattern_en (pos_tags_en tokens))"
  by (simp only: spans_en_spec match_spans_en)

lemma spans_ja_matches: "spans_ja tokens = filter short (match_spans pattern_ja (pos_tags_ja tokens))"
  by (simp only: spans_ja_spec match_spans_ja)

lemma short_spans_props:
  assumes l: "length syms = length tokens"
      and s: "span \<in> set (filter short (leftmost_longest syms 0))"
  shows "short span" "fst span < snd span" "snd span \<le> length tokens"
    "length (slice tokens (fst span) (snd span)) \<le> 3"
proof -
  from s have sh: "short span" and m: "(fst span, snd span) \<in> set (leftmost_longest syms 0)"
    by simp_all
  from leftmost_longest_bounds [OF m] l show b: "fst span < snd span" "snd span \<le> length tokens"
    by simp_all
  from sh show "short span" .
  from sh b show "length (slice tokens (fst span) (snd span)) \<le> 3"
    by (simp add: slice_length short_def)
qed

lemma dropped_disjoint:
  assumes m: "m \<in> set (leftmost_longest syms 0)" and n: "\<not> short m"
      and s: "span \<in> set (filter short (leftmost_longest syms 0))"
  shows "disjoint_spans m span"
proof -
  from s have "span \<in> set (leftmost_longest syms 0)" "short span"
    by simp_all
  with n have "m \<noteq> span" by auto
  with sorted_wrt_mem_cases [OF leftmost_longest_chain m \<open>span \<in> set (leftmost_longest syms 0)\<close>]
  have "snd m \<le> fst span \<or> snd span \<le> fst m"
    by blast
  then show ?thesis
    by (auto intro: disjoint_spans_le disjoint_spans_sym)
qed

lemma short_chain: "sorted_wrt (\<lambda>a b. snd a \<le> fst b) (filter short (leftmost_longest syms 0))"
  by (rule sorted_wrt_filter) (rule leftmost_longest_chain)

lemma short_increasing: "sorted_wrt (\<lambda>a b. fst a < fst b) (filter short (leftmost_longest syms 0))"
proof (rule sorted_wrt_mono_rel [OF _ short_chain])
  fix a b :: "nat \<times> nat"
  assume "a \<in> set (filter short (leftmost_longest syms 0))" and ab: "snd a \<le> fst b"
  then have "(fst a, snd a) \<in> set (leftmost_longest syms 0)" by simp
  from leftmost_longest_bounds [OF this] ab show "fst a < fst b" by simp
qed

lemma phrase_text_nth:
  "snd span \<le> length tokens \<Longrightarrow>
   phrase_text tokens span = join (str ''_'') (map (\<lambda>i. fst (tokens ! i)) [fst span ..< snd span])"
  by (simp add: phrase_text_def slice_nth comp_def)

text \<open>What either \<open>tokenize\<close> returns, in terms of the statements it runs.\<close>

lemma tokenize_en_phrases:
  "snd (StanfordCoreNlpTokenizer_tokenize pos_tag sentence pos_filter) = phrases_en (pos_tag sentence)"
  by (simp add: StanfordCoreNlpTokenizer_tokenize_def Let_def)

lemma tokenize_ja_result:
  "sudachi_mode self = Some mode \<Longrightarrow> sudachi_tokens (tokenizer self sentence mode) = Inr tokens \<Longrightarrow>
   SudachiTokenizer_tokenize self sentence pos_filter =
     Inr (token_filter tokens pos_filter, phrases_ja tokens)"
  by (simp add: SudachiTokenizer_tokenize_def Let_def)

text \<open>The equations by which the definitions are evaluated on a concrete input.\<close>

lemmas eval_simps = finditer_from.simps match_here.simps leftmost_longest.simps
  match_spans_def finditer_def match_phrases_def phrase_spans_def phrase_text_def
  pattern_en_def pattern_ja_def pos_tags_en_def pos_tags_ja_def
  anonymize_pos_en_def anonymize_pos_ja_def symbols_en_def symbols_ja_def
  classify_en_def classify_ja_def longest_at_def in_pattern_def slice_def
  keiyoushi_def meishi_def kei_def mei_def ta_def upt_rec Let_def

section \<open>C1: the phrases are the short leftmost-longest matches\<close>

lemma matches_of_tokens:
  "match_spans pattern_en (pos_tags_en tokens) = leftmost_longest (symbols_en tokens) 0 \<and>
   match_spans pattern_ja (pos_tags_ja tokens) = leftmost_longest (symbols_ja tokens) 0 \<and>
   phrases_en tokens = map (phrase_text tokens) (filter short (leftmost_longest (symbols_en tokens) 0)) \<and>
   phrases_ja tokens = map (phrase_text tokens) (filter short (leftmost_longest (symbols_ja tokens) 0)) \<and>
   (\<forall>span \<in> set (leftmost_longest (symbols_en tokens) 0).
       in_pattern (slice (symbols_en tokens) (fst span) (snd span)) \<and>
       Noun \<in> set (slice (symbols_en tokens) (fst span) (snd span))) \<and>
   (\<forall>span \<in> set (leftmost_longest (symbols_ja tokens) 0).
       in_pattern (slice (symbols_ja tokens) (fst span) (snd span)) \<and>
       Noun \<in> set (slice (symbols_ja tokens) (fst span) (snd span))) \<and>
   (Noun \<notin> set (symbols_en tokens) \<longrightarrow> phrases_en tokens = []) \<and>
   (Noun \<notin> set (symbols_ja tokens) \<longrightarrow> phrases_ja tokens = []) \<and>
   phrases_en [] = [] \<and> phrases_ja [] = []"
proof -
  have en: "phrases_en ts = map (phrase_text ts) (filter short (leftmost_longest (symbols_en ts) 0))" for ts
    by (simp only: match_phrases_spans spans_en_spec)
  have ja: "phrases_ja ts = map (phrase_text ts) (filter short (leftmost_longest (symbols_ja ts) 0))" for ts
    by (simp only: match_phrases_spans spans_ja_spec)
  have noun: "\<forall>span \<in> set (leftmost_longest syms 0).
       in_pattern (slice syms (fst span) (snd span)) \<and> Noun \<in> set (slice syms (fst span) (snd span))" for syms
  proof
    fix span assume s: "span \<in> set (leftmost_longest syms 0)"
    then have "(fst span, snd span) \<in> set (leftmost_longest syms 0)" by simp
    then have "in_pattern (slice syms (fst span) (snd span))"
      by (rule leftmost_longest_in_pattern)
    moreover from s have "Noun \<in> set (slice syms (fst span) (snd span))"
      by (rule leftmost_longest_has_Noun)
    ultimately show "in_pattern (slice syms (fst span) (snd span)) \<and> Noun \<in> set (slice syms (fst span) (snd span))"
      by simp
  qed
  have none_en: "Noun \<notin> set (symbols_en tokens) \<longrightarrow> phrases_en tokens = []"
    by (simp add: en leftmost_longest_no_Noun)
  have none_ja: "Noun \<notin> set (symbols_ja tokens) \<longrightarrow> phrases_ja tokens = []"
    by (simp add: ja leftmost_longest_no_Noun)
  have e_en: "phrases_en [] = []"
    by (simp add: en symbols_en_def leftmost_longest_Nil)
  have e_ja: "phrases_ja [] = []"
    by (simp add: ja symbols_ja_def leftmost_longest_Nil)
  from match_spans_en [of tokens] match_spans_ja [of tokens]
    en [of tokens] ja [of tokens] noun [of "symbols_en tokens"] noun [of "symbols_ja tokens"]
    none_en none_ja e_en e_ja
  show ?thesis by (intro conjI)
qed

text \<open>
  C1 says that the returned phrase spans are exactly the leftmost, non-overlapping,
  greedy matches of adjectives followed by nouns. On four adjectives and a noun the only
  such match is the whole sequence, and \<open>tokenize\<close> returns no phrase: a match of
  more than three tokens is found but not returned.
\<close>

theorem long_match_not_returned:
  "leftmost_longest (symbols_en long_run) 0 = [(0, 5)] \<and>
   spans_en long_run = [] \<and>
   phrases_en long_run = [] \<and>
   snd (StanfordCoreNlpTokenizer_tokenize (\<lambda>sentence. long_run)
          (str ''big old red wooden house'') pos_filter_en) = []"
  by code_simp

text \<open>
  C1, amended. For every sentence, the phrases that \<open>tokenize\<close> of either class
  returns are, in order, the texts of those leftmost, longest, non-overlapping matches
  of zero or more adjectives followed by one or more nouns, over the classified tokens
  of the sentence, that have at most three tokens; the Japanese \<open>tokenize\<close> returns
  them whenever the mode is set and the analyzer output yields tokens. The matches that
  the scan of the source finds are those leftmost-longest matches. Every match is in the
  pattern and contains a noun; when no token classifies as a noun, and on the empty
  token sequence, the returned phrase list is empty.
\<close>

theorem phrases_leftmost_longest_short:
  "snd (StanfordCoreNlpTokenizer_tokenize pos_tag sentence pos_filter) =
     map (phrase_text (pos_tag sentence))
       (filter short (leftmost_longest (symbols_en (pos_tag sentence)) 0)) \<and>
   (sudachi_mode self = Some mode \<and> sudachi_tokens (tokenizer self sentence mode) = Inr tokens \<longrightarrow>
      SudachiTokenizer_tokenize self sentence pos_filter =
        Inr (token_filter tokens pos_filter,
             map (phrase_text tokens) (filter short (leftmost_longest (symbols_ja tokens) 0)))) \<and>
   (Noun \<notin> set (symbols_en (pos_tag sentence)) \<longrightarrow>
      snd (StanfordCoreNlpTokenizer_tokenize pos_tag sentence pos_filter) = []) \<and>
   (pos_tag sentence = [] \<longrightarrow>
      snd (StanfordCoreNlpTokenizer_tokenize pos_tag sentence pos_filter) = []) \<and>
   (sudachi_mode self = Some mode \<and> sudachi_tokens (tokenizer self sentence mode) = Inr tokens \<and>
    Noun \<notin> set (symbols_ja tokens) \<longrightarrow>
      SudachiTokenizer_tokenize self sentence pos_filter = Inr (token_filter tokens pos_filter, [])) \<and>
   match_spans pattern_en (pos_tags_en tokens) = leftmost_longest (symbols_en tokens) 0 \<and>
   match_spans pattern_ja (pos_tags_ja tokens) = leftmost_longest (symbols_ja tokens) 0 \<and>
   phrases_en tokens = map (phrase_text tokens) (filter short (leftmost_longest (symbols_en tokens) 0)) \<and>
   phrases_ja tokens = map (phrase_text tokens) (filter short (leftmost_longest (symbols_ja tokens) 0)) \<and>
   (\<forall>span \<in> set (leftmost_longest (symbols_en tokens) 0).
       in_pattern (slice (symbols_en tokens) (fst span) (snd span)) \<and>
       Noun \<in> set (slice (symbols_en tokens) (fst span) (snd span))) \<and>
   (\<forall>span \<in> set (leftmost_longest (symbols_ja tokens) 0).
       in_pattern (slice (symbols_ja tokens) (fst span) (snd span)) \<and>
       Noun \<in> set (slice (symbols_ja tokens) (fst span) (snd span))) \<and>
   (Noun \<notin> set (symbols_en tokens) \<longrightarrow> phrases_en tokens = []) \<and>
   (Noun \<notin> set (symbols_ja tokens) \<longrightarrow> phrases_ja tokens = []) \<and>
   phrases_en [] = [] \<and> phrases_ja [] = []"
proof -
  have en: "phrases_en ts = map (phrase_text ts) (filter short (leftmost_longest (symbols_en ts) 0))" for ts
    by (simp only: match_phrases_spans spans_en_spec)
  have ja: "phrases_ja ts = map (phrase_text ts) (filter short (leftmost_longest (symbols_ja ts) 0))" for ts
    by (simp only: match_phrases_spans spans_ja_spec)
  have r_en: "snd (StanfordCoreNlpTokenizer_tokenize pos_tag sentence pos_filter) =
     map (phrase_text (pos_tag sentence))
       (filter short (leftmost_longest (symbols_en (pos_tag sentence)) 0))"
    by (simp only: tokenize_en_phrases en)
  have r_ja: "sudachi_mode self = Some mode \<and> sudachi_tokens (tokenizer self sentence mode) = Inr tokens \<longrightarrow>
      SudachiTokenizer_tokenize self sentence pos_filter =
        Inr (token_filter tokens pos_filter,
             map (phrase_text tokens) (filter short (leftmost_longest (symbols_ja tokens) 0)))"
    using tokenize_ja_result [of self mode sentence tokens pos_filter] by (simp only: ja) blast
  have n_en: "Noun \<notin> set (symbols_en (pos_tag sentence)) \<longrightarrow>
      snd (StanfordCoreNlpTokenizer_tokenize pos_tag sentence pos_filter) = []"
    by (simp add: r_en leftmost_longest_no_Noun)
  have e_en: "pos_tag sentence = [] \<longrightarrow>
      snd (StanfordCoreNlpTokenizer_tokenize pos_tag sentence pos_filter) = []"
    by (simp add: r_en symbols_en_def leftmost_longest_Nil)
  have n_ja: "sudachi_mode self = Some mode \<and> sudachi_tokens (tokenizer self sentence mode) = Inr tokens \<and>
    Noun \<notin> set (symbols_ja tokens) \<longrightarrow>
      SudachiTokenizer_tokenize self sentence pos_filter = Inr (token_filter tokens pos_filter, [])"
    using r_ja by (simp add: leftmost_longest_no_Noun)
  show ?thesis
    by (rule conjI [OF r_en conjI [OF r_ja conjI [OF n_en conjI [OF e_en
        conjI [OF n_ja matches_of_tokens]]]]])
qed

theorem phrases_leftmost_longest_short_witness:
  "snd (StanfordCoreNlpTokenizer_tokenize (\<lambda>sentence. quick_brown_fox)
          (str ''quick brown fox jumps'') pos_filter_en) = [str ''quick_brown_fox''] \<and>
   SudachiTokenizer_tokenize (sudachi_stub raw_utsukushii_hana) (utsukushii @ hana) pos_filter_ja =
     Inr ([utsukushii, hana], [utsukushii @ str ''_'' @ hana]) \<and>
   Noun \<notin> set (symbols_en no_noun) \<and>
   snd (StanfordCoreNlpTokenizer_tokenize (\<lambda>sentence. no_noun)
          (str ''runs quickly'') pos_filter_en) = [] \<and>
   snd (StanfordCoreNlpTokenizer_tokenize (\<lambda>sentence. []) [] pos_filter_en) = [] \<and>
   SudachiTokenizer_tokenize (sudachi_stub []) [] pos_filter_ja = Inr ([], []) \<and>
   (0, 3) \<in> set (leftmost_longest (symbols_en quick_brown_fox) 0) \<and>
   Noun \<in> set (slice (symbols_en quick_brown_fox) 0 3) \<and>
   (0, 2) \<in> set (leftmost_longest (symbols_ja utsukushii_hana) 0) \<and>
   Noun \<in> set (slice (symbols_ja utsukushii_hana) 0 2) \<and>
   phrases_en no_noun = [] \<and>
   Noun \<notin> set (symbols_ja no_noun) \<and> phrases_ja no_noun = []"
proof -
  have en: "(0, 3) \<in> set (leftmost_longest (symbols_en quick_brown_fox) 0)"
    by code_simp
  have ja: "(0, 2) \<in> set (leftmost_longest (symbols_ja utsukushii_hana) 0)"
    by (simp add: eval_simps utsukushii_hana_def utsukushii_def hana_def)
  have none_en: "Noun \<notin> set (symbols_en no_noun)"
    by code_simp
  have none_ja: "Noun \<notin> set (symbols_ja no_noun)"
    by (simp add: eval_simps no_noun_def)
  have h: "sudachi_mode (sudachi_stub raw_utsukushii_hana) = Some SplitMode_C \<and>
      sudachi_tokens (tokenizer (sudachi_stub raw_utsukushii_hana) (utsukushii @ hana) SplitMode_C) =
        Inr utsukushii_hana"
    by (simp add: sudachi_stub_def raw_utsukushii_hana_def utsukushii_hana_def discarded_def
        utsukushii_def hana_def)
  have h0: "sudachi_mode (sudachi_stub []) = Some SplitMode_C \<and>
      sudachi_tokens (tokenizer (sudachi_stub []) [] SplitMode_C) = Inr [] \<and>
      Noun \<notin> set (symbols_ja [])"
    by (simp add: sudachi_stub_def symbols_ja_def)
  have v_en: "map (phrase_text quick_brown_fox)
      (filter short (leftmost_longest (symbols_en quick_brown_fox) 0)) = [str ''quick_brown_fox'']"
    by code_simp
  have v_ja: "map (phrase_text utsukushii_hana)
      (filter short (leftmost_longest (symbols_ja utsukushii_hana) 0)) = [utsukushii @ str ''_'' @ hana]"
    by (simp add: eval_simps short_def utsukushii_hana_def utsukushii_def hana_def)
  have f_ja: "token_filter utsukushii_hana pos_filter_ja = [utsukushii, hana]"
    by (simp add: utsukushii_hana_def pos_filter_ja_def keiyoushi_def meishi_def)
  from phrases_leftmost_longest_short [where pos_tag = "\<lambda>sentence. quick_brown_fox"
      and sentence = "str ''quick brown fox jumps''" and pos_filter = pos_filter_en]
  have "snd (StanfordCoreNlpTokenizer_tokenize (\<lambda>sentence. quick_brown_fox)
          (str ''quick brown fox jumps'') pos_filter_en) =
      map (phrase_text quick_brown_fox) (filter short (leftmost_longest (symbols_en quick_brown_fox) 0))"
    by blast
  then have r1: "snd (StanfordCoreNlpTokenizer_tokenize (\<lambda>sentence. quick_brown_fox)
          (str ''quick brown fox jumps'') pos_filter_en) = [str ''quick_brown_fox'']"
    by (simp only: v_en)
  from phrases_leftmost_longest_short [where self = "sudachi_stub raw_utsukushii_hana"
      and mode = SplitMode_C and sentence = "utsukushii @ hana" and tokens = utsukushii_hana
      and pos_filter = pos_filter_ja and pos_tag = "\<lambda>sentence. []"] h
  have "SudachiTokenizer_tokenize (sudachi_stub raw_utsukushii_hana) (utsukushii @ hana) pos_filter_ja =
     Inr (token_filter utsukushii_hana pos_filter_ja,
          map (phrase_text utsukushii_hana) (filter short (leftmost_longest (symbols_ja utsukushii_hana) 0)))"
    by blast
  then have r2: "SudachiTokenizer_tokenize (sudachi_stub raw_utsukushii_hana) (utsukushii @ hana) pos_filter_ja =
     Inr ([utsukushii, hana], [utsukushii @ str ''_'' @ hana])"
    by (simp only: v_ja f_ja)
  from phrases_leftmost_longest_short [where pos_tag = "\<lambda>sentence. no_noun"
      and sentence = "str ''runs quickly''" and pos_filter = pos_filter_en] none_en
  have r3: "snd (StanfordCoreNlpTokenizer_tokenize (\<lambda>sentence. no_noun)
          (str ''runs quickly'') pos_filter_en) = []"
    by blast
  from phrases_leftmost_longest_short [where pos_tag = "\<lambda>sentence. []"
      and sentence = "[]" and pos_filter = pos_filter_en]
  have r4: "snd (StanfordCoreNlpTokenizer_tokenize (\<lambda>sentence. []) [] pos_filter_en) = []"
    by blast
  have f0: "token_filter [] pos_filter_ja = []"
    by simp
  from phrases_leftmost_longest_short [where self = "sudachi_stub []"
      and mode = SplitMode_C and sentence = "[]" and tokens = "[]" and pos_filter = pos_filter_ja
      and pos_tag = "\<lambda>sentence. []"] h0
  have "SudachiTokenizer_tokenize (sudachi_stub []) [] pos_filter_ja =
      Inr (token_filter [] pos_filter_ja, [])"
    by blast
  then have r5: "SudachiTokenizer_tokenize (sudachi_stub []) [] pos_filter_ja = Inr ([], [])"
    by (simp only: f0)
  from phrases_leftmost_longest_short [where tokens = quick_brown_fox] en
  have m1: "Noun \<in> set (slice (symbols_en quick_brown_fox) (fst (0 :: nat, 3 :: nat)) (snd (0 :: nat, 3 :: nat)))"
    by blast
  from phrases_leftmost_longest_short [where tokens = utsukushii_hana] ja
  have m2: "Noun \<in> set (slice (symbols_ja utsukushii_hana) (fst (0 :: nat, 2 :: nat)) (snd (0 :: nat, 2 :: nat)))"
    by blast
  from phrases_leftmost_longest_short [where tokens = no_noun] none_en none_ja
  have m3: "phrases_en no_noun = [] \<and> phrases_ja no_noun = []"
    by blast
  from r1 r2 r3 r4 r5 m1 m2 m3 en ja none_en none_ja show ?thesis
    by simp
qed

section \<open>C2: matches of more than three tokens are dropped whole\<close>

lemma short_spans_of_tokens:
  "spans_en tokens = filter short (match_spans pattern_en (pos_tags_en tokens)) \<and>
   phrases_en tokens = map (phrase_text tokens) (spans_en tokens) \<and>
   (\<forall>span \<in> set (spans_en tokens).
      short span \<and> length (slice tokens (fst span) (snd span)) \<le> 3) \<and>
   (\<forall>m \<in> set (match_spans pattern_en (pos_tags_en tokens)).
      \<not> short m \<longrightarrow> (\<forall>span \<in> set (spans_en tokens). disjoint_spans m span)) \<and>
   spans_ja tokens = filter short (match_spans pattern_ja (pos_tags_ja tokens)) \<and>
   phrases_ja tokens = map (phrase_text tokens) (spans_ja tokens) \<and>
   (\<forall>span \<in> set (spans_ja tokens).
      short span \<and> length (slice tokens (fst span) (snd span)) \<le> 3) \<and>
   (\<forall>m \<in> set (match_spans pattern_ja (pos_tags_ja tokens)).
      \<not> short m \<longrightarrow> (\<forall>span \<in> set (spans_ja tokens). disjoint_spans m span))"
proof -
  have kept: "\<forall>span \<in> set (filter short (leftmost_longest syms 0)).
      short span \<and> length (slice tokens (fst span) (snd span)) \<le> 3"
    if "length syms = length tokens" for syms
    using short_spans_props [OF that] by blast
  have dropped: "\<forall>m \<in> set (leftmost_longest syms 0).
      \<not> short m \<longrightarrow> (\<forall>span \<in> set (filter short (leftmost_longest syms 0)). disjoint_spans m span)" for syms
    using dropped_disjoint by blast
  have len_en: "length (symbols_en tokens) = length tokens"
    by (simp add: symbols_en_def)
  have len_ja: "length (symbols_ja tokens) = length tokens"
    by (simp add: symbols_ja_def)
  show ?thesis
    unfolding spans_en_spec spans_ja_spec match_spans_en match_spans_ja
    using kept [OF len_en] kept [OF len_ja] dropped [of "symbols_en tokens"] dropped [of "symbols_ja tokens"]
    by (simp only: match_phrases_spans spans_en_spec spans_ja_spec simp_thms)
qed

text \<open>
  C2. For every sentence, the phrases that \<open>tokenize\<close> of either class returns are
  the texts of the returned spans, and these are the matches of at most three tokens:
  every returned phrase has at most three tokens. A match of more than three tokens
  shares no token position with any returned span: nothing of it is returned, truncated
  or split.
\<close>

theorem long_matches_dropped:
  "snd (StanfordCoreNlpTokenizer_tokenize pos_tag sentence pos_filter) =
     map (phrase_text (pos_tag sentence)) (spans_en (pos_tag sentence)) \<and>
   (\<forall>span \<in> set (spans_en (pos_tag sentence)).
      short span \<and> length (slice (pos_tag sentence) (fst span) (snd span)) \<le> 3) \<and>
   (sudachi_mode self = Some mode \<and> sudachi_tokens (tokenizer self sentence mode) = Inr tokens \<longrightarrow>
      SudachiTokenizer_tokenize self sentence pos_filter =
        Inr (token_filter tokens pos_filter, map (phrase_text tokens) (spans_ja tokens))) \<and>
   spans_en tokens = filter short (match_spans pattern_en (pos_tags_en tokens)) \<and>
   phrases_en tokens = map (phrase_text tokens) (spans_en tokens) \<and>
   (\<forall>span \<in> set (spans_en tokens).
      short span \<and> length (slice tokens (fst span) (snd span)) \<le> 3) \<and>
   (\<forall>m \<in> set (match_spans pattern_en (pos_tags_en tokens)).
      \<not> short m \<longrightarrow> (\<forall>span \<in> set (spans_en tokens). disjoint_spans m span)) \<and>
   spans_ja tokens = filter short (match_spans pattern_ja (pos_tags_ja tokens)) \<and>
   phrases_ja tokens = map (phrase_text tokens) (spans_ja tokens) \<and>
   (\<forall>span \<in> set (spans_ja tokens).
      short span \<and> length (slice tokens (fst span) (snd span)) \<le> 3) \<and>
   (\<forall>m \<in> set (match_spans pattern_ja (pos_tags_ja tokens)).
      \<not> short m \<longrightarrow> (\<forall>span \<in> set (spans_ja tokens). disjoint_spans m span))"
proof -
  have r_en: "snd (StanfordCoreNlpTokenizer_tokenize pos_tag sentence pos_filter) =
     map (phrase_text (pos_tag sentence)) (spans_en (pos_tag sentence))"
    by (simp only: tokenize_en_phrases match_phrases_spans)
  have k_en: "\<forall>span \<in> set (spans_en (pos_tag sentence)).
      short span \<and> length (slice (pos_tag sentence) (fst span) (snd span)) \<le> 3"
    by (rule short_spans_of_tokens [of "pos_tag sentence", THEN conjunct2, THEN conjunct2, THEN conjunct1])
  have r_ja: "sudachi_mode self = Some mode \<and> sudachi_tokens (tokenizer self sentence mode) = Inr tokens \<longrightarrow>
      SudachiTokenizer_tokenize self sentence pos_filter =
        Inr (token_filter tokens pos_filter, map (phrase_text tokens) (spans_ja tokens))"
    using tokenize_ja_result [of self mode sentence tokens pos_filter]
    by (simp only: match_phrases_spans) blast
  show ?thesis
    by (rule conjI [OF r_en conjI [OF k_en conjI [OF r_ja short_spans_of_tokens]]])
qed

theorem long_matches_dropped_witness:
  "snd (StanfordCoreNlpTokenizer_tokenize (\<lambda>sentence. long_then_short)
          (str ''big old red wooden house burns red house'') pos_filter_en) = [str ''red_house''] \<and>
   SudachiTokenizer_tokenize (sudachi_stub raw_utsukushii_hana) (utsukushii @ hana) pos_filter_ja =
     Inr ([utsukushii, hana], [utsukushii @ str ''_'' @ hana]) \<and>
   (6, 8) \<in> set (spans_en long_then_short) \<and> short (6, 8) \<and>
   (0, 5) \<in> set (match_spans pattern_en (pos_tags_en long_then_short)) \<and> \<not> short (0, 5) \<and>
   disjoint_spans (0, 5) (6, 8) \<and>
   phrases_en long_then_short = [str ''red_house''] \<and>
   (0, 2) \<in> set (spans_ja utsukushii_hana) \<and> short (0, 2)"
proof -
  have k: "(6, 8) \<in> set (spans_en long_then_short)"
    by code_simp
  have d: "(0, 5) \<in> set (match_spans pattern_en (pos_tags_en long_then_short))"
    by code_simp
  have n: "\<not> short (0, 5)"
    by (simp add: short_def)
  have p: "phrases_en long_then_short = [str ''red_house'']"
    by code_simp
  have j: "(0, 2) \<in> set (spans_ja utsukushii_hana)"
    by (simp add: eval_simps utsukushii_hana_def utsukushii_def hana_def)
  have h: "sudachi_mode (sudachi_stub raw_utsukushii_hana) = Some SplitMode_C \<and>
      sudachi_tokens (tokenizer (sudachi_stub raw_utsukushii_hana) (utsukushii @ hana) SplitMode_C) =
        Inr utsukushii_hana"
    by (simp add: sudachi_stub_def raw_utsukushii_hana_def utsukushii_hana_def discarded_def
        utsukushii_def hana_def)
  have v_en: "map (phrase_text long_then_short) (spans_en long_then_short) = [str ''red_house'']"
    by code_simp
  have v_ja: "map (phrase_text utsukushii_hana) (spans_ja utsukushii_hana) =
      [utsukushii @ str ''_'' @ hana]"
    by (simp add: eval_simps utsukushii_hana_def utsukushii_def hana_def)
  have f_ja: "token_filter utsukushii_hana pos_filter_ja = [utsukushii, hana]"
    by (simp add: utsukushii_hana_def pos_filter_ja_def keiyoushi_def meishi_def)
  from long_matches_dropped [where pos_tag = "\<lambda>sentence. long_then_short"
      and sentence = "str ''big old red wooden house burns red house''" and pos_filter = pos_filter_en]
  have "snd (StanfordCoreNlpTokenizer_tokenize (\<lambda>sentence. long_then_short)
          (str ''big old red wooden house burns red house'') pos_filter_en) =
      map (phrase_text long_then_short) (spans_en long_then_short)"
    by blast
  then have r1: "snd (StanfordCoreNlpTokenizer_tokenize (\<lambda>sentence. long_then_short)
          (str ''big old red wooden house burns red house'') pos_filter_en) = [str ''red_house'']"
    by (simp only: v_en)
  from long_matches_dropped [where self = "sudachi_stub raw_utsukushii_hana"
      and mode = SplitMode_C and sentence = "utsukushii @ hana" and tokens = utsukushii_hana
      and pos_filter = pos_filter_ja and pos_tag = "\<lambda>sentence. []"] h
  have "SudachiTokenizer_tokenize (sudachi_stub raw_utsukushii_hana) (utsukushii @ hana) pos_filter_ja =
     Inr (token_filter utsukushii_hana pos_filter_ja,
          map (phrase_text utsukushii_hana) (spans_ja utsukushii_hana))"
    by blast
  then have r2: "SudachiTokenizer_tokenize (sudachi_stub raw_utsukushii_hana) (utsukushii @ hana) pos_filter_ja =
     Inr ([utsukushii, hana], [utsukushii @ str ''_'' @ hana])"
    by (simp only: v_ja f_ja)
  from long_matches_dropped [where tokens = long_then_short] k d n
  have m1: "short (6, 8) \<and> disjoint_spans (0, 5) (6, 8)"
    by blast
  from long_matches_dropped [where tokens = utsukushii_hana] j
  have m2: "short (0, 2)"
    by blast
  from r1 r2 m1 m2 k d n p j show ?thesis
    by simp
qed

section \<open>C3: the tag classifier\<close>

text \<open>
  C3. The classifier is a total function. For English exactly the tags JJ, JJR, JJS go to
  the adjective symbol \<open>J\<close>, exactly NN, NNS, NNP, NNPS to the noun symbol \<open>N\<close>, and
  every other string to \<open>O\<close>; for Japanese exactly the adjective tag goes to the
  adjective symbol, exactly the noun tag to the noun symbol, every other string to the
  third symbol.
\<close>

theorem anonymize_pos_table:
  "{pos. anonymize_pos_en pos = str ''J''} = {str ''JJ'', str ''JJR'', str ''JJS''} \<and>
   {pos. anonymize_pos_en pos = str ''N''} =
      {str ''NN'', str ''NNS'', str ''NNP'', str ''NNPS''} \<and>
   {pos. anonymize_pos_en pos = str ''O''} =
      - {str ''JJ'', str ''JJR'', str ''JJS'', str ''NN'', str ''NNS'', str ''NNP'', str ''NNPS''} \<and>
   {pos. anonymize_pos_ja pos = [kei]} = {keiyoushi} \<and>
   {pos. anonymize_pos_ja pos = [mei]} = {meishi} \<and>
   {pos. anonymize_pos_ja pos = [ta]} = - {keiyoushi, meishi}"
proof -
  have en_J: "{pos. anonymize_pos_en pos = str ''J''} = {str ''JJ'', str ''JJR'', str ''JJS''}"
    by (auto simp: anonymize_pos_en_def)
  have en_N: "{pos. anonymize_pos_en pos = str ''N''} =
      {str ''NN'', str ''NNS'', str ''NNP'', str ''NNPS''}"
    by (auto simp: anonymize_pos_en_def)
  have en_O: "{pos. anonymize_pos_en pos = str ''O''} =
      - {str ''JJ'', str ''JJR'', str ''JJS'', str ''NN'', str ''NNS'', str ''NNP'', str ''NNPS''}"
    by (auto simp: anonymize_pos_en_def)
  have ja_J: "{pos. anonymize_pos_ja pos = [kei]} = {keiyoushi}"
    by (auto simp: anonymize_pos_ja_def kei_def mei_def ta_def)
  have ja_N: "{pos. anonymize_pos_ja pos = [mei]} = {meishi}"
    by (auto simp: anonymize_pos_ja_def kei_def mei_def ta_def keiyoushi_def meishi_def)
  have ja_O: "{pos. anonymize_pos_ja pos = [ta]} = - {keiyoushi, meishi}"
    by (auto simp: anonymize_pos_ja_def kei_def mei_def ta_def)
  from en_J en_N en_O ja_J ja_N ja_O show ?thesis
    by blast
qed
section \<open>C4: the returned spans do not overlap\<close>

text \<open>
  C4. For every token sequence and both classes, the spans of the returned phrases are
  non-empty ranges of token positions inside the sentence, and of two returned spans
  the earlier one ends before the later one starts: their ranges are disjoint.
\<close>

theorem phrase_spans_disjoint:
  "(\<forall>span \<in> set (spans_en tokens). fst span < snd span \<and> snd span \<le> length tokens) \<and>
   (\<forall>i j. i < j \<and> j < length (spans_en tokens) \<longrightarrow>
      snd (spans_en tokens ! i) \<le> fst (spans_en tokens ! j) \<and>
      disjoint_spans (spans_en tokens ! i) (spans_en tokens ! j)) \<and>
   (\<forall>span \<in> set (spans_ja tokens). fst span < snd span \<and> snd span \<le> length tokens) \<and>
   (\<forall>i j. i < j \<and> j < length (spans_ja tokens) \<longrightarrow>
      snd (spans_ja tokens ! i) \<le> fst (spans_ja tokens ! j) \<and>
      disjoint_spans (spans_ja tokens ! i) (spans_ja tokens ! j))"
proof -
  have inside: "\<forall>span \<in> set (filter short (leftmost_longest syms 0)).
      fst span < snd span \<and> snd span \<le> length tokens"
    if "length syms = length tokens" for syms
    using short_spans_props [OF that] by blast
  have apart: "\<forall>i j. i < j \<and> j < length (filter short (leftmost_longest syms 0)) \<longrightarrow>
      snd (filter short (leftmost_longest syms 0) ! i) \<le> fst (filter short (leftmost_longest syms 0) ! j) \<and>
      disjoint_spans (filter short (leftmost_longest syms 0) ! i) (filter short (leftmost_longest syms 0) ! j)" for syms
    using short_chain [of syms] disjoint_spans_le
    unfolding sorted_wrt_iff_nth_less by blast
  have len_en: "length (symbols_en tokens) = length tokens"
    by (simp add: symbols_en_def)
  have len_ja: "length (symbols_ja tokens) = length tokens"
    by (simp add: symbols_ja_def)
  from inside [OF len_en] inside [OF len_ja] apart [of "symbols_en tokens"] apart [of "symbols_ja tokens"]
  show ?thesis
    unfolding spans_en_spec spans_ja_spec by blast
qed

theorem phrase_spans_disjoint_witness:
  "spans_en fox_and_dog = [(0, 3), (4, 6)] \<and>
   disjoint_spans (spans_en fox_and_dog ! 0) (spans_en fox_and_dog ! 1) \<and>
   snd (spans_en fox_and_dog ! 0) \<le> fst (spans_en fox_and_dog ! 1) \<and>
   (3 :: nat) \<le> length fox_and_dog \<and>
   spans_ja utsukushii_hana = [(0, 2)] \<and>
   (2 :: nat) \<le> length utsukushii_hana"
proof -
  have en: "spans_en fox_and_dog = [(0, 3), (4, 6)]"
    by code_simp
  have ja: "spans_ja utsukushii_hana = [(0, 2)]"
    by (simp add: eval_simps utsukushii_hana_def utsukushii_def hana_def)
  have ij: "(0 :: nat) < 1 \<and> 1 < length (spans_en fox_and_dog)"
    by (simp add: en)
  have m_en: "(0, 3) \<in> set (spans_en fox_and_dog)"
    by (simp add: en)
  have m_ja: "(0, 2) \<in> set (spans_ja utsukushii_hana)"
    by (simp add: ja)
  from phrase_spans_disjoint [of fox_and_dog] ij
  have d: "snd (spans_en fox_and_dog ! 0) \<le> fst (spans_en fox_and_dog ! 1) \<and>
      disjoint_spans (spans_en fox_and_dog ! 0) (spans_en fox_and_dog ! 1)"
    by blast
  from phrase_spans_disjoint [of fox_and_dog] m_en
  have b_en: "fst (0 :: nat, 3 :: nat) < snd (0 :: nat, 3 :: nat) \<and> snd (0 :: nat, 3 :: nat) \<le> length fox_and_dog"
    by blast
  from phrase_spans_disjoint [of utsukushii_hana] m_ja
  have b_ja: "fst (0 :: nat, 2 :: nat) < snd (0 :: nat, 2 :: nat) \<and> snd (0 :: nat, 2 :: nat) \<le> length utsukushii_hana"
    by blast
  from en ja d b_en b_ja show ?thesis
    by simp
qed

section \<open>C5: order and duplicates\<close>

lemma phrases_of_tokens_in_order:
  "phrases_en tokens = map (phrase_text tokens) (spans_en tokens) \<and>
   length (phrases_en tokens) = length (spans_en tokens) \<and>
   sorted_wrt (\<lambda>a b. fst a < fst b) (spans_en tokens) \<and>
   (\<forall>span \<in> set (spans_en tokens).
      phrase_text tokens span =
        join (str ''_'') (map (\<lambda>i. fst (tokens ! i)) [fst span ..< snd span])) \<and>
   phrases_ja tokens = map (phrase_text tokens) (spans_ja tokens) \<and>
   length (phrases_ja tokens) = length (spans_ja tokens) \<and>
   sorted_wrt (\<lambda>a b. fst a < fst b) (spans_ja tokens) \<and>
   (\<forall>span \<in> set (spans_ja tokens).
      phrase_text tokens span =
        join (str ''_'') (map (\<lambda>i. fst (tokens ! i)) [fst span ..< snd span])) \<and>
   phrases_en tea_and_tea = [str ''tea'', str ''tea''] \<and>
   phrases_ja hana_to_hana = [hana, hana]"
proof -
  have joined: "\<forall>span \<in> set (filter short (leftmost_longest syms 0)).
      phrase_text tokens span =
        join (str ''_'') (map (\<lambda>i. fst (tokens ! i)) [fst span ..< snd span])"
    if "length syms = length tokens" for syms
    using short_spans_props(3) [OF that] phrase_text_nth by blast
  have len_en: "length (symbols_en tokens) = length tokens"
    by (simp add: symbols_en_def)
  have len_ja: "length (symbols_ja tokens) = length tokens"
    by (simp add: symbols_ja_def)
  have dup_en: "phrases_en tea_and_tea = [str ''tea'', str ''tea'']"
    by code_simp
  have dup_ja: "phrases_ja hana_to_hana = [hana, hana]"
    by (simp add: eval_simps hana_to_hana_def hana_def)
  have en: "phrases_en tokens = map (phrase_text tokens) (spans_en tokens)"
    by (rule match_phrases_spans)
  have ja: "phrases_ja tokens = map (phrase_text tokens) (spans_ja tokens)"
    by (rule match_phrases_spans)
  have n_en: "length (phrases_en tokens) = length (spans_en tokens)"
    by (simp add: en)
  have n_ja: "length (phrases_ja tokens) = length (spans_ja tokens)"
    by (simp add: ja)
  have o_en: "sorted_wrt (\<lambda>a b. fst a < fst b) (spans_en tokens)"
    unfolding spans_en_spec by (rule short_increasing)
  have o_ja: "sorted_wrt (\<lambda>a b. fst a < fst b) (spans_ja tokens)"
    unfolding spans_ja_spec by (rule short_increasing)
  have t_en: "\<forall>span \<in> set (spans_en tokens).
      phrase_text tokens span =
        join (str ''_'') (map (\<lambda>i. fst (tokens ! i)) [fst span ..< snd span])"
    unfolding spans_en_spec by (rule joined [OF len_en])
  have t_ja: "\<forall>span \<in> set (spans_ja tokens).
      phrase_text tokens span =
        join (str ''_'') (map (\<lambda>i. fst (tokens ! i)) [fst span ..< snd span])"
    unfolding spans_ja_spec by (rule joined [OF len_ja])
  from en n_en o_en t_en ja n_ja o_ja t_ja dup_en dup_ja show ?thesis
    by blast
qed

text \<open>
  C5. For every sentence, \<open>tokenize\<close> of either class returns one phrase for each
  returned span, in the order of the spans, which is the order of their start positions
  in the sentence; the phrase of a span is the texts of its tokens, in the order of the
  sentence, joined by an underscore. Nothing is deduplicated: the same text matched at
  two positions is returned twice.
\<close>

theorem phrases_in_order_with_duplicates:
  "snd (StanfordCoreNlpTokenizer_tokenize pos_tag sentence pos_filter) =
     map (phrase_text (pos_tag sentence)) (spans_en (pos_tag sentence)) \<and>
   sorted_wrt (\<lambda>a b. fst a < fst b) (spans_en (pos_tag sentence)) \<and>
   (\<forall>span \<in> set (spans_en (pos_tag sentence)).
      phrase_text (pos_tag sentence) span =
        join (str ''_'') (map (\<lambda>i. fst (pos_tag sentence ! i)) [fst span ..< snd span])) \<and>
   (sudachi_mode self = Some mode \<and> sudachi_tokens (tokenizer self sentence mode) = Inr tokens \<longrightarrow>
      SudachiTokenizer_tokenize self sentence pos_filter =
        Inr (token_filter tokens pos_filter, map (phrase_text tokens) (spans_ja tokens))) \<and>
   snd (StanfordCoreNlpTokenizer_tokenize (\<lambda>sentence. tea_and_tea) (str ''tea and tea'')
          pos_filter_en) = [str ''tea'', str ''tea''] \<and>
   SudachiTokenizer_tokenize (sudachi_stub raw_hana_to_hana) (hana @ [12392] @ hana) pos_filter_ja =
     Inr ([hana, hana], [hana, hana]) \<and>
   phrases_en tokens = map (phrase_text tokens) (spans_en tokens) \<and>
   length (phrases_en tokens) = length (spans_en tokens) \<and>
   sorted_wrt (\<lambda>a b. fst a < fst b) (spans_en tokens) \<and>
   (\<forall>span \<in> set (spans_en tokens).
      phrase_text tokens span =
        join (str ''_'') (map (\<lambda>i. fst (tokens ! i)) [fst span ..< snd span])) \<and>
   phrases_ja tokens = map (phrase_text tokens) (spans_ja tokens) \<and>
   length (phrases_ja tokens) = length (spans_ja tokens) \<and>
   sorted_wrt (\<lambda>a b. fst a < fst b) (spans_ja tokens) \<and>
   (\<forall>span \<in> set (spans_ja tokens).
      phrase_text tokens span =
        join (str ''_'') (map (\<lambda>i. fst (tokens ! i)) [fst span ..< snd span])) \<and>
   phrases_en tea_and_tea = [str ''tea'', str ''tea''] \<and>
   phrases_ja hana_to_hana = [hana, hana]"
proof -
  have r_en: "snd (StanfordCoreNlpTokenizer_tokenize pos_tag sentence pos_filter) =
     map (phrase_text (pos_tag sentence)) (spans_en (pos_tag sentence))"
    by (simp only: tokenize_en_phrases match_phrases_spans)
  have o_en: "sorted_wrt (\<lambda>a b. fst a < fst b) (spans_en (pos_tag sentence))"
    unfolding spans_en_spec by (rule short_increasing)
  have t_en: "\<forall>span \<in> set (spans_en (pos_tag sentence)).
      phrase_text (pos_tag sentence) span =
        join (str ''_'') (map (\<lambda>i. fst (pos_tag sentence ! i)) [fst span ..< snd span])"
    by (rule phrases_of_tokens_in_order [of "pos_tag sentence",
          THEN conjunct2, THEN conjunct2, THEN conjunct2, THEN conjunct1])
  have r_ja: "sudachi_mode self = Some mode \<and> sudachi_tokens (tokenizer self sentence mode) = Inr tokens \<longrightarrow>
      SudachiTokenizer_tokenize self sentence pos_filter =
        Inr (token_filter tokens pos_filter, map (phrase_text tokens) (spans_ja tokens))"
    using tokenize_ja_result [of self mode sentence tokens pos_filter]
    by (simp only: match_phrases_spans) blast
  have d_en: "snd (StanfordCoreNlpTokenizer_tokenize (\<lambda>sentence. tea_and_tea) (str ''tea and tea'')
          pos_filter_en) = [str ''tea'', str ''tea'']"
    by code_simp
  have s: "sudachi_tokens raw_hana_to_hana = Inr hana_to_hana"
    by (simp add: raw_hana_to_hana_def hana_to_hana_def discarded_def hana_def)
  have p: "phrases_ja hana_to_hana = [hana, hana]"
    by (simp add: eval_simps hana_to_hana_def hana_def)
  have f: "token_filter hana_to_hana pos_filter_ja = [hana, hana]"
    by (simp add: hana_to_hana_def pos_filter_ja_def keiyoushi_def meishi_def)
  have d_ja: "SudachiTokenizer_tokenize (sudachi_stub raw_hana_to_hana) (hana @ [12392] @ hana) pos_filter_ja =
     Inr ([hana, hana], [hana, hana])"
    by (simp add: SudachiTokenizer_tokenize_def sudachi_stub_def s Let_def p f)
  show ?thesis
    by (rule conjI [OF r_en conjI [OF o_en conjI [OF t_en conjI [OF r_ja
        conjI [OF d_en conjI [OF d_ja phrases_of_tokens_in_order]]]]]])
qed

theorem phrases_in_order_with_duplicates_witness:
  "snd (StanfordCoreNlpTokenizer_tokenize (\<lambda>sentence. fox_and_dog)
          (str ''quick brown fox jumps lazy dog'') pos_filter_en) =
      [str ''quick_brown_fox'', str ''lazy_dog''] \<and>
   SudachiTokenizer_tokenize (sudachi_stub raw_utsukushii_hana) (utsukushii @ hana) pos_filter_ja =
     Inr ([utsukushii, hana], [utsukushii @ str ''_'' @ hana]) \<and>
   (0, 3) \<in> set (spans_en fox_and_dog) \<and>
   phrase_text fox_and_dog (0, 3) = str ''quick_brown_fox'' \<and>
   phrases_en fox_and_dog = [str ''quick_brown_fox'', str ''lazy_dog''] \<and>
   (0, 2) \<in> set (spans_ja utsukushii_hana) \<and>
   phrase_text utsukushii_hana (0, 2) = utsukushii @ str ''_'' @ hana"
proof -
  have en: "(0, 3) \<in> set (spans_en fox_and_dog)"
    by code_simp
  have ja: "(0, 2) \<in> set (spans_ja utsukushii_hana)"
    by (simp add: eval_simps utsukushii_hana_def utsukushii_def hana_def)
  from phrases_in_order_with_duplicates [where tokens = fox_and_dog] en
  have "phrase_text fox_and_dog (0, 3) =
      join (str ''_'') (map (\<lambda>i. fst (fox_and_dog ! i)) [fst (0 :: nat, 3 :: nat) ..< snd (0 :: nat, 3 :: nat)])"
    by blast
  also have "\<dots> = str ''quick_brown_fox''"
    by code_simp
  finally have t_en: "phrase_text fox_and_dog (0, 3) = str ''quick_brown_fox''" .
  from phrases_in_order_with_duplicates [where tokens = utsukushii_hana] ja
  have "phrase_text utsukushii_hana (0, 2) =
      join (str ''_'') (map (\<lambda>i. fst (utsukushii_hana ! i)) [fst (0 :: nat, 2 :: nat) ..< snd (0 :: nat, 2 :: nat)])"
    by blast
  also have "\<dots> = utsukushii @ str ''_'' @ hana"
    by (simp add: utsukushii_hana_def upt_rec)
  finally have t_ja: "phrase_text utsukushii_hana (0, 2) = utsukushii @ str ''_'' @ hana" .
  have p: "phrases_en fox_and_dog = [str ''quick_brown_fox'', str ''lazy_dog'']"
    by code_simp
  have h: "sudachi_mode (sudachi_stub raw_utsukushii_hana) = Some SplitMode_C \<and>
      sudachi_tokens (tokenizer (sudachi_stub raw_utsukushii_hana) (utsukushii @ hana) SplitMode_C) =
        Inr utsukushii_hana"
    by (simp add: sudachi_stub_def raw_utsukushii_hana_def utsukushii_hana_def discarded_def
        utsukushii_def hana_def)
  have v_en: "map (phrase_text fox_and_dog) (spans_en fox_and_dog) =
      [str ''quick_brown_fox'', str ''lazy_dog'']"
    by code_simp
  have v_ja: "map (phrase_text utsukushii_hana) (spans_ja utsukushii_hana) =
      [utsukushii @ str ''_'' @ hana]"
    by (simp add: eval_simps utsukushii_hana_def utsukushii_def hana_def)
  have f_ja: "token_filter utsukushii_hana pos_filter_ja = [utsukushii, hana]"
    by (simp add: utsukushii_hana_def pos_filter_ja_def keiyoushi_def meishi_def)
  from phrases_in_order_with_duplicates [where pos_tag = "\<lambda>sentence. fox_and_dog"
      and sentence = "str ''quick brown fox jumps lazy dog''" and pos_filter = pos_filter_en]
  have "snd (StanfordCoreNlpTokenizer_tokenize (\<lambda>sentence. fox_and_dog)
          (str ''quick brown fox jumps lazy dog'') pos_filter_en) =
      map (phrase_text fox_and_dog) (spans_en fox_and_dog)"
    by blast
  then have r1: "snd (StanfordCoreNlpTokenizer_tokenize (\<lambda>sentence. fox_and_dog)
          (str ''quick brown fox jumps lazy dog'') pos_filter_en) =
      [str ''quick_brown_fox'', str ''lazy_dog'']"
    by (simp only: v_en)
  from phrases_in_order_with_duplicates [where self = "sudachi_stub raw_utsukushii_hana"
      and mode = SplitMode_C and sentence = "utsukushii @ hana" and tokens = utsukushii_hana
      and pos_filter = pos_filter_ja and pos_tag = "\<lambda>sentence. []"] h
  have "SudachiTokenizer_tokenize (sudachi_stub raw_utsukushii_hana) (utsukushii @ hana) pos_filter_ja =
     Inr (token_filter utsukushii_hana pos_filter_ja,
          map (phrase_text utsukushii_hana) (spans_ja utsukushii_hana))"
    by blast
  then have r2: "SudachiTokenizer_tokenize (sudachi_stub raw_utsukushii_hana) (utsukushii @ hana) pos_filter_ja =
     Inr ([utsukushii, hana], [utsukushii @ str ''_'' @ hana])"
    by (simp only: v_ja f_ja)
  from r1 r2 en ja t_en t_ja p show ?thesis
    by simp
qed

section \<open>C6: the symbols are aligned with the tokens\<close>

text \<open>
  C6. For every token sequence and both classes, the list of symbols has the length of
  the token sequence and its entry at an index is the classification of the tag of the
  token at that index; the string the pattern is matched on has one character for each
  token, the symbol of that token.
\<close>

theorem symbols_aligned:
  "length (pos_tags_en tokens) = length tokens \<and>
   (\<forall>i < length tokens. pos_tags_en tokens ! i = anonymize_pos_en (snd (tokens ! i))) \<and>
   length (join [] (pos_tags_en tokens)) = length tokens \<and>
   (\<forall>i < length tokens. [join [] (pos_tags_en tokens) ! i] = anonymize_pos_en (snd (tokens ! i))) \<and>
   length (pos_tags_ja tokens) = length tokens \<and>
   (\<forall>i < length tokens. pos_tags_ja tokens ! i = anonymize_pos_ja (snd (tokens ! i))) \<and>
   length (join [] (pos_tags_ja tokens)) = length tokens \<and>
   (\<forall>i < length tokens. [join [] (pos_tags_ja tokens) ! i] = anonymize_pos_ja (snd (tokens ! i)))"
proof -
  have l_en: "length (pos_tags_en tokens) = length tokens"
    by (simp add: pos_tags_en_def)
  have n_en: "\<forall>i < length tokens. pos_tags_en tokens ! i = anonymize_pos_en (snd (tokens ! i))"
    by (simp add: pos_tags_en_def)
  have s_en: "length (join [] (pos_tags_en tokens)) = length tokens"
    by (simp add: joined_en symbols_en_def)
  have c_en: "\<forall>i < length tokens. [join [] (pos_tags_en tokens) ! i] = anonymize_pos_en (snd (tokens ! i))"
    by (simp add: joined_en symbols_en_def anonymize_pos_en_char)
  have l_ja: "length (pos_tags_ja tokens) = length tokens"
    by (simp add: pos_tags_ja_def)
  have n_ja: "\<forall>i < length tokens. pos_tags_ja tokens ! i = anonymize_pos_ja (snd (tokens ! i))"
    by (simp add: pos_tags_ja_def)
  have s_ja: "length (join [] (pos_tags_ja tokens)) = length tokens"
    by (simp add: joined_ja symbols_ja_def)
  have c_ja: "\<forall>i < length tokens. [join [] (pos_tags_ja tokens) ! i] = anonymize_pos_ja (snd (tokens ! i))"
    by (simp add: joined_ja symbols_ja_def anonymize_pos_ja_char)
  from l_en n_en s_en c_en l_ja n_ja s_ja c_ja show ?thesis
    by (intro conjI)
qed

theorem symbols_aligned_witness:
  "(2 :: nat) < length quick_brown_fox \<and>
   pos_tags_en quick_brown_fox ! 2 = str ''N'' \<and>
   [join [] (pos_tags_en quick_brown_fox) ! 2] = str ''N'' \<and>
   (1 :: nat) < length utsukushii_hana \<and>
   pos_tags_ja utsukushii_hana ! 1 = [mei] \<and>
   [join [] (pos_tags_ja utsukushii_hana) ! 1] = [mei]"
proof -
  have i_en: "(2 :: nat) < length quick_brown_fox"
    by (simp add: quick_brown_fox_def)
  have i_ja: "(1 :: nat) < length utsukushii_hana"
    by (simp add: utsukushii_hana_def)
  have t_en: "anonymize_pos_en (snd (quick_brown_fox ! 2)) = str ''N''"
    by (simp add: quick_brown_fox_def anonymize_pos_en_def)
  have t_ja: "anonymize_pos_ja (snd (utsukushii_hana ! 1)) = [mei]"
    by (simp add: utsukushii_hana_def anonymize_pos_ja_def keiyoushi_def meishi_def)
  from symbols_aligned [of quick_brown_fox] i_en
  have "pos_tags_en quick_brown_fox ! 2 = anonymize_pos_en (snd (quick_brown_fox ! 2)) \<and>
      [join [] (pos_tags_en quick_brown_fox) ! 2] = anonymize_pos_en (snd (quick_brown_fox ! 2))"
    by blast
  moreover from symbols_aligned [of utsukushii_hana] i_ja
  have "pos_tags_ja utsukushii_hana ! 1 = anonymize_pos_ja (snd (utsukushii_hana ! 1)) \<and>
      [join [] (pos_tags_ja utsukushii_hana) ! 1] = anonymize_pos_ja (snd (utsukushii_hana ! 1))"
    by blast
  ultimately show ?thesis
    using i_en i_ja t_en t_ja by simp
qed

section \<open>C7: the token filter\<close>

lemma token_filter_filter:
  "token_filter tokens pos_filter =
     map fst (filter (\<lambda>token. snd token \<in> set pos_filter) tokens)"
  by (induction tokens) simp_all

text \<open>
  C7. For every token sequence and every list of allowed tags, the returned token list is
  the texts of the tokens whose tag is in the list, in the order of the sentence: a token
  is omitted exactly when its tag is not in the list. It is the first component of what
  either \<open>tokenize\<close> returns.
\<close>

theorem token_filter_keeps_allowed:
  "token_filter tokens pos_filter =
     map fst (filter (\<lambda>token. snd token \<in> set pos_filter) tokens) \<and>
   fst (StanfordCoreNlpTokenizer_tokenize pos_tag sentence pos_filter) =
     map fst (filter (\<lambda>token. snd token \<in> set pos_filter) (pos_tag sentence)) \<and>
   (sudachi_mode self = Some mode \<and> sudachi_tokens (tokenizer self sentence mode) = Inr tokens \<longrightarrow>
      SudachiTokenizer_tokenize self sentence pos_filter =
        Inr (map fst (filter (\<lambda>token. snd token \<in> set pos_filter) tokens), phrases_ja tokens))"
proof -
  have en: "fst (StanfordCoreNlpTokenizer_tokenize pos_tag sentence pos_filter) =
      map fst (filter (\<lambda>token. snd token \<in> set pos_filter) (pos_tag sentence))"
    by (simp add: StanfordCoreNlpTokenizer_tokenize_def Let_def token_filter_filter)
  have ja: "sudachi_mode self = Some mode \<and> sudachi_tokens (tokenizer self sentence mode) = Inr tokens \<longrightarrow>
      SudachiTokenizer_tokenize self sentence pos_filter =
        Inr (map fst (filter (\<lambda>token. snd token \<in> set pos_filter) tokens), phrases_ja tokens)"
    by (simp add: SudachiTokenizer_tokenize_def Let_def token_filter_filter)
  from token_filter_filter en ja show ?thesis
    by (intro conjI)
qed

theorem token_filter_keeps_allowed_witness:
  "sudachi_tokens raw_utsukushii_hana = Inr utsukushii_hana \<and>
   SudachiTokenizer_tokenize (sudachi_stub raw_utsukushii_hana) [] pos_filter_ja =
     Inr ([utsukushii, hana], [utsukushii @ str ''_'' @ hana]) \<and>
   SudachiTokenizer_tokenize (sudachi_stub raw_utsukushii_hana) [] [meishi] =
     Inr ([hana], [utsukushii @ str ''_'' @ hana]) \<and>
   token_filter quick_brown_fox pos_filter_en = [str ''quick'', str ''brown'', str ''fox'']"
proof -
  have t: "sudachi_tokens raw_utsukushii_hana = Inr utsukushii_hana"
    by (simp add: raw_utsukushii_hana_def utsukushii_hana_def discarded_def utsukushii_def hana_def)
  then have h: "sudachi_mode (sudachi_stub raw_utsukushii_hana) = Some SplitMode_C \<and>
      sudachi_tokens (tokenizer (sudachi_stub raw_utsukushii_hana) [] SplitMode_C) = Inr utsukushii_hana"
    by (simp add: sudachi_stub_def)
  have p: "phrases_ja utsukushii_hana = [utsukushii @ str ''_'' @ hana]"
    by (simp add: eval_simps utsukushii_hana_def utsukushii_def hana_def)
  have f: "map fst (filter (\<lambda>token. snd token \<in> set pos_filter_ja) utsukushii_hana) = [utsukushii, hana]"
    by (simp add: utsukushii_hana_def pos_filter_ja_def keiyoushi_def meishi_def)
  have g: "map fst (filter (\<lambda>token. snd token \<in> set [meishi]) utsukushii_hana) = [hana]"
    by (simp add: utsukushii_hana_def keiyoushi_def meishi_def)
  have e: "map fst (filter (\<lambda>token. snd token \<in> set pos_filter_en) quick_brown_fox) =
      [str ''quick'', str ''brown'', str ''fox'']"
    by (simp add: quick_brown_fox_def pos_filter_en_def)
  from token_filter_keeps_allowed [where self = "sudachi_stub raw_utsukushii_hana" and mode = SplitMode_C and tokens = utsukushii_hana and sentence = "[]" and pos_filter = pos_filter_ja] h
  have "SudachiTokenizer_tokenize (sudachi_stub raw_utsukushii_hana) [] pos_filter_ja =
      Inr (map fst (filter (\<lambda>token. snd token \<in> set pos_filter_ja) utsukushii_hana), phrases_ja utsukushii_hana)"
    by blast
  moreover from token_filter_keeps_allowed [where self = "sudachi_stub raw_utsukushii_hana" and mode = SplitMode_C and tokens = utsukushii_hana and sentence = "[]" and pos_filter = "[meishi]"] h
  have "SudachiTokenizer_tokenize (sudachi_stub raw_utsukushii_hana) [] [meishi] =
      Inr (map fst (filter (\<lambda>token. snd token \<in> set [meishi]) utsukushii_hana), phrases_ja utsukushii_hana)"
    by blast
  moreover from token_filter_keeps_allowed [where tokens = quick_brown_fox and pos_filter = pos_filter_en]
  have "token_filter quick_brown_fox pos_filter_en =
      map fst (filter (\<lambda>token. snd token \<in> set pos_filter_en) quick_brown_fox)"
    by blast
  ultimately show ?thesis
    using t p f g e by simp
qed

section \<open>C8: sentinel and empty morphemes are discarded\<close>

lemma sudachi_tokens_surfaces:
  "sudachi_tokens morphs = Inr tokens \<Longrightarrow>
   map fst tokens = map surface (filter (\<lambda>morph. \<not> discarded morph) morphs)"
proof (induction morphs arbitrary: tokens)
  case Nil
  then show ?case by simp
next
  case (Cons morph morphs)
  show ?case
  proof (cases "discarded morph")
    case True
    with Cons show ?thesis by simp
  next
    case False
    with Cons.prems obtain pos rest ts where
      "part_of_speech morph = pos # rest" "sudachi_tokens morphs = Inr ts"
      "tokens = (surface morph, pos) # ts"
      by (auto split: list.splits sum.splits)
    with Cons.IH [of ts] False show ?thesis by simp
  qed
qed

lemma sudachi_tokens_total:
  "(\<forall>morph \<in> set morphs. discarded morph \<or> part_of_speech morph \<noteq> []) \<Longrightarrow>
   \<exists>tokens. sudachi_tokens morphs = Inr tokens"
proof (induction morphs)
  case Nil
  then show ?case by simp
next
  case (Cons morph morphs)
  then obtain ts where "sudachi_tokens morphs = Inr ts"
    by auto
  with Cons.prems show ?case
    by (cases "part_of_speech morph") auto
qed

lemma kept_surface:
  "\<not> discarded morph \<Longrightarrow>
   surface morph \<noteq> str ''BOS'' \<and> surface morph \<noteq> str ''EOS'' \<and> surface morph \<noteq> []"
  unfolding discarded_def by blast

text \<open>
  C8. Whenever the Japanese adapter produces a token sequence, the token texts are, in
  order, the surfaces of the morphemes that are neither \<open>BOS\<close> nor \<open>EOS\<close> nor empty,
  so no token has such a text, and none of the texts that \<open>tokenize\<close> returns is one;
  the adapter does produce a token sequence when every kept morpheme has a part of
  speech.
\<close>

theorem sudachi_tokens_without_sentinels:
  "(sudachi_tokens morphs = Inr tokens \<longrightarrow>
      map fst tokens = map surface (filter (\<lambda>morph. \<not> discarded morph) morphs) \<and>
      (\<forall>token \<in> set tokens.
         fst token \<noteq> str ''BOS'' \<and> fst token \<noteq> str ''EOS'' \<and> fst token \<noteq> [])) \<and>
   ((\<forall>morph \<in> set morphs. discarded morph \<or> part_of_speech morph \<noteq> []) \<longrightarrow>
      (\<exists>tokens. sudachi_tokens morphs = Inr tokens)) \<and>
   (SudachiTokenizer_tokenize self sentence pos_filter = Inr (texts, phrases) \<longrightarrow>
      (\<forall>text \<in> set texts. text \<noteq> str ''BOS'' \<and> text \<noteq> str ''EOS'' \<and> text \<noteq> []))"
proof -
  have clean: "\<forall>token \<in> set ts. fst token \<noteq> str ''BOS'' \<and> fst token \<noteq> str ''EOS'' \<and> fst token \<noteq> []"
    if "sudachi_tokens ms = Inr ts" for ms ts
  proof
    fix token assume "token \<in> set ts"
    then have "fst token \<in> set (map fst ts)"
      by simp
    then have "fst token \<in> set (map surface (filter (\<lambda>morph. \<not> discarded morph) ms))"
      by (simp only: sudachi_tokens_surfaces [OF that])
    then obtain morph where "\<not> discarded morph" "fst token = surface morph"
      by auto
    with kept_surface [of morph]
    show "fst token \<noteq> str ''BOS'' \<and> fst token \<noteq> str ''EOS'' \<and> fst token \<noteq> []"
      by simp
  qed
  have a: "sudachi_tokens morphs = Inr tokens \<longrightarrow>
      map fst tokens = map surface (filter (\<lambda>morph. \<not> discarded morph) morphs) \<and>
      (\<forall>token \<in> set tokens.
         fst token \<noteq> str ''BOS'' \<and> fst token \<noteq> str ''EOS'' \<and> fst token \<noteq> [])"
    using sudachi_tokens_surfaces clean by blast
  have b: "(\<forall>morph \<in> set morphs. discarded morph \<or> part_of_speech morph \<noteq> []) \<longrightarrow>
      (\<exists>tokens. sudachi_tokens morphs = Inr tokens)"
    using sudachi_tokens_total by blast
  have c: "SudachiTokenizer_tokenize self sentence pos_filter = Inr (texts, phrases) \<longrightarrow>
      (\<forall>text \<in> set texts. text \<noteq> str ''BOS'' \<and> text \<noteq> str ''EOS'' \<and> text \<noteq> [])"
  proof
    assume r: "SudachiTokenizer_tokenize self sentence pos_filter = Inr (texts, phrases)"
    then obtain mode ts where ts: "sudachi_tokens (tokenizer self sentence mode) = Inr ts"
      and texts: "texts = token_filter ts pos_filter"
      by (auto simp: SudachiTokenizer_tokenize_def Let_def split: option.splits sum.splits)
    show "\<forall>text \<in> set texts. text \<noteq> str ''BOS'' \<and> text \<noteq> str ''EOS'' \<and> text \<noteq> []"
    proof
      fix w assume "w \<in> set texts"
      then obtain token where "token \<in> set ts" "w = fst token"
        unfolding texts token_filter_filter by auto
      with clean [OF ts] show "w \<noteq> str ''BOS'' \<and> w \<noteq> str ''EOS'' \<and> w \<noteq> []"
        by auto
    qed
  qed
  from a b c show ?thesis
    by (intro conjI)
qed

theorem sudachi_tokens_without_sentinels_witness:
  "sudachi_tokens raw_utsukushii_hana = Inr utsukushii_hana \<and>
   map fst utsukushii_hana = [utsukushii, hana] \<and>
   utsukushii \<noteq> str ''BOS'' \<and> utsukushii \<noteq> str ''EOS'' \<and> utsukushii \<noteq> [] \<and>
   SudachiTokenizer_tokenize (sudachi_stub raw_utsukushii_hana) [] pos_filter_ja =
     Inr ([utsukushii, hana], [utsukushii @ str ''_'' @ hana]) \<and>
   hana \<noteq> str ''BOS'' \<and> hana \<noteq> str ''EOS'' \<and> hana \<noteq> [] \<and>
   (\<exists>tokens. sudachi_tokens [\<lparr>surface = hana, part_of_speech = [meishi]\<rparr>] = Inr tokens)"
proof -
  have t: "sudachi_tokens raw_utsukushii_hana = Inr utsukushii_hana"
    by (simp add: raw_utsukushii_hana_def utsukushii_hana_def discarded_def utsukushii_def hana_def)
  have m: "(utsukushii, keiyoushi) \<in> set utsukushii_hana"
    by (simp add: utsukushii_hana_def)
  have p: "phrases_ja utsukushii_hana = [utsukushii @ str ''_'' @ hana]"
    by (simp add: eval_simps utsukushii_hana_def utsukushii_def hana_def)
  have f: "token_filter utsukushii_hana pos_filter_ja = [utsukushii, hana]"
    by (simp add: utsukushii_hana_def pos_filter_ja_def keiyoushi_def meishi_def)
  have r: "SudachiTokenizer_tokenize (sudachi_stub raw_utsukushii_hana) [] pos_filter_ja =
     Inr ([utsukushii, hana], [utsukushii @ str ''_'' @ hana])"
    by (simp add: SudachiTokenizer_tokenize_def sudachi_stub_def t Let_def p f)
  have w: "\<forall>morph \<in> set [\<lparr>surface = hana, part_of_speech = [meishi]\<rparr>].
      discarded morph \<or> part_of_speech morph \<noteq> []"
    by simp
  from sudachi_tokens_without_sentinels [where morphs = raw_utsukushii_hana and tokens = utsukushii_hana] t m
  have a: "map fst utsukushii_hana = map surface (filter (\<lambda>morph. \<not> discarded morph) raw_utsukushii_hana) \<and>
      fst (utsukushii, keiyoushi) \<noteq> str ''BOS'' \<and> fst (utsukushii, keiyoushi) \<noteq> str ''EOS'' \<and>
      fst (utsukushii, keiyoushi) \<noteq> []"
    by blast
  from sudachi_tokens_without_sentinels [where self = "sudachi_stub raw_utsukushii_hana"
      and sentence = "[]" and pos_filter = pos_filter_ja and texts = "[utsukushii, hana]"
      and phrases = "[utsukushii @ str ''_'' @ hana]"] r
  have b: "hana \<noteq> str ''BOS'' \<and> hana \<noteq> str ''EOS'' \<and> hana \<noteq> []"
    by simp
  from sudachi_tokens_without_sentinels [where morphs = "[\<lparr>surface = hana, part_of_speech = [meishi]\<rparr>]"] w
  have c: "\<exists>tokens. sudachi_tokens [\<lparr>surface = hana, part_of_speech = [meishi]\<rparr>] = Inr tokens"
    by blast
  from t r a b c show ?thesis
    by (simp add: utsukushii_hana_def)
qed

section \<open>C9: the length check of the specification\<close>

text \<open>
  C9 is about a comparison of lengths in the program text. Both \<open>tokenize\<close> methods
  compute the symbol sequence from the token sequence itself, one symbol for each token,
  so the matching step never receives sequences of different lengths: on every token
  sequence the matching step with the check of the specification returns what the
  matching step of the source returns, and never the error. Whether the check is there
  makes no difference to what \<open>tokenize\<close> returns, for any input; the claim is
  therefore not a statement about the behaviour modelled here.
\<close>

lemma checked_match_phrases_same:
  "checked_match_phrases pattern_en tokens (pos_tags_en tokens) = Inr (phrases_en tokens) \<and>
   checked_match_phrases pattern_ja tokens (pos_tags_ja tokens) = Inr (phrases_ja tokens)"
  by (simp add: checked_match_phrases_def pos_tags_en_def pos_tags_ja_def)

section \<open>C10: an unknown split mode\<close>

text \<open>
  C10. For every mode string other than \<open>A\<close>, \<open>B\<close> and \<open>C\<close> the constructor returns
  an object whose attribute \<open>sudachi_mode\<close> is not set, and only for such a string;
  \<open>tokenize\<close> on that object then fails with \<open>AttributeError\<close>, whatever the sentence
  and the filter.
\<close>

theorem unknown_mode_unset:
  "tokenizer (SudachiTokenizer_init created mode) = created \<and>
   (sudachi_mode (SudachiTokenizer_init created mode) = None) =
     (mode \<notin> {str ''A'', str ''B'', str ''C''}) \<and>
   (mode \<notin> {str ''A'', str ''B'', str ''C''} \<longrightarrow>
      SudachiTokenizer_init created mode = \<lparr>tokenizer = created, sudachi_mode = None\<rparr> \<and>
      SudachiTokenizer_tokenize (SudachiTokenizer_init created mode) sentence pos_filter =
        Inl AttributeError)"
  by (simp add: SudachiTokenizer_init_def SudachiTokenizer_tokenize_def Let_def)

theorem unknown_mode_unset_witness:
  "str ''D'' \<notin> {str ''A'', str ''B'', str ''C''} \<and>
   SudachiTokenizer_init (\<lambda>sentence mode. raw_utsukushii_hana) (str ''D'') =
     \<lparr>tokenizer = (\<lambda>sentence mode. raw_utsukushii_hana), sudachi_mode = None\<rparr> \<and>
   SudachiTokenizer_tokenize (SudachiTokenizer_init (\<lambda>sentence mode. raw_utsukushii_hana) (str ''D''))
     [] pos_filter_ja = Inl AttributeError \<and>
   sudachi_mode (SudachiTokenizer_init (\<lambda>sentence mode. raw_utsukushii_hana) (str ''B'')) =
     Some SplitMode_B"
proof -
  have d: "str ''D'' \<notin> {str ''A'', str ''B'', str ''C''}"
    by simp
  have b: "sudachi_mode (SudachiTokenizer_init (\<lambda>sentence mode. raw_utsukushii_hana) (str ''B'')) =
     Some SplitMode_B"
    by (simp add: SudachiTokenizer_init_def)
  from unknown_mode_unset [where mode = "str ''D''" and created = "\<lambda>sentence mode. raw_utsukushii_hana"
      and sentence = "[]" and pos_filter = pos_filter_ja] d b
  show ?thesis
    by blast
qed


end
